theory Spec2Isabelle
  imports Complex_Main
begin

section \<open>Virtual element assembly for linear elasticity (vem.cpp)\<close>

text \<open>
  The C++ code works on raw buffers of \<open>double\<close>. A buffer is a \<open>real list\<close> here, a
  pointer into a buffer is the buffer with its prefix dropped, and \<open>double\<close> arithmetic
  is arithmetic on the reals: rounding is not modelled. Exceptions and failed assertions
  are values of the type \<open>error\<close>.
\<close>

datatype error = invalid_argument | runtime_error | assertion_failure

subsection \<open>Point arithmetic\<close>

text \<open>\<open>plc\<close>: a linear combination of two \<open>Dim\<close>-dimensional points.\<close>

definition plc :: "nat \<Rightarrow> real list \<Rightarrow> real list \<Rightarrow> real \<Rightarrow> real \<Rightarrow> real list" where
  "plc Dim p1 p2 fac1 fac2 = map (\<lambda>d. p1 ! d * fac1 + p2 ! d * fac2) [0..<Dim]"

definition pointsum :: "nat \<Rightarrow> real list \<Rightarrow> real list \<Rightarrow> real list" where
  "pointsum Dim p1 p2 = plc Dim p1 p2 1 1"

definition pointdiff :: "nat \<Rightarrow> real list \<Rightarrow> real list \<Rightarrow> real list" where
  "pointdiff Dim p1 p2 = plc Dim p1 p2 1 (- 1)"

definition pointmean :: "nat \<Rightarrow> real list \<Rightarrow> real list \<Rightarrow> real list" where
  "pointmean Dim p1 p2 = plc Dim p1 p2 (1 / 2) (1 / 2)"

text \<open>\<open>norm\<close>: the L2 norm of the first \<open>Dim\<close> entries of a buffer.\<close>

definition norm_l2 :: "nat \<Rightarrow> real list \<Rightarrow> real" where
  "norm_l2 Dim v = sqrt (foldl (\<lambda>acc el. acc + el * el) 0 (take Dim v))"

definition determinant3D :: "real list \<Rightarrow> real list \<Rightarrow> real list \<Rightarrow> real" where
  "determinant3D c1 c2 c3 =
     c1 ! 0 * (c2 ! 1 * c3 ! 2 - c2 ! 2 * c3 ! 1) - c1 ! 1 * (c2 ! 0 * c3 ! 2 - c2 ! 2 * c3 ! 0)
       + c1 ! 2 * (c2 ! 0 * c3 ! 1 - c2 ! 1 * c3 ! 0)"

text \<open>\<open>point_average\<close>: the coordinate mean of \<open>num_corners\<close> points.\<close>

definition point_average :: "nat \<Rightarrow> real list \<Rightarrow> nat \<Rightarrow> real list" where
  "point_average Dim corners num_corners =
     map (\<lambda>c. c / real num_corners)
       (foldl (\<lambda>result i. pointsum Dim result (drop (Dim * i) corners))
          (replicate Dim 0) [0..<num_corners])"

text \<open>\<open>pick_points\<close>: the coordinates of the points listed in \<open>p_ixs\<close>, consecutively.\<close>

definition pick_points :: "nat \<Rightarrow> real list \<Rightarrow> nat list \<Rightarrow> nat \<Rightarrow> real list" where
  "pick_points Dim pts p_ixs num_points =
     concat (map (\<lambda>i. map (\<lambda>d. pts ! (p_ixs ! i * Dim + d)) [0..<Dim]) [0..<num_points])"

text \<open>\<open>triarea\<close>: Heron's formula.\<close>

definition triarea :: "nat \<Rightarrow> real list \<Rightarrow> real list \<Rightarrow> real list \<Rightarrow> real" where
  "triarea Dim c1 c2 c3 =
     (let l1 = norm_l2 Dim (pointdiff Dim c2 c1);
          l2 = norm_l2 Dim (pointdiff Dim c3 c2);
          l3 = norm_l2 Dim (pointdiff Dim c1 c3);
          s = (1 / 2) * (l1 + l2 + l3)
      in sqrt (s * (s - l1) * (s - l2) * (s - l3)))"

text \<open>\<open>trinormal\<close>: the cross product of two edge vectors of a triangle in 3D.\<close>

definition trinormal :: "real list \<Rightarrow> real list \<Rightarrow> real list \<Rightarrow> real list" where
  "trinormal c1 c2 c3 =
     (let v1 = [c2 ! 0 - c1 ! 0, c2 ! 1 - c1 ! 1, c2 ! 2 - c1 ! 2];
          v2 = [c3 ! 0 - c1 ! 0, c3 ! 1 - c1 ! 1, c3 ! 2 - c1 ! 2]
      in [v1 ! 1 * v2 ! 2 - v1 ! 2 * v2 ! 1, v1 ! 2 * v2 ! 0 - v1 ! 0 * v2 ! 2,
          v1 ! 0 * v2 ! 1 - v1 ! 1 * v2 ! 0])"

text \<open>
  \<open>tetrahedron_volume\<close> calls \<open>abs\<close> without \<open>std::\<close>, inside \<open>namespace vem\<close>, and the file
  includes \<open>cmath\<close> but not \<open>stdlib.h\<close> or \<open>math.h\<close>. As built with GCC and libstdc++, the
  only \<open>abs\<close> visible there is \<open>int abs(int)\<close> of the C library: the determinant is converted
  to \<open>int\<close>, which truncates towards zero, and the absolute value of that integer is divided
  by \<open>6.0\<close>. \<open>abs_int\<close> is this call. The conversion of a \<open>double\<close> outside the range of \<open>int\<close>
  is undefined in C++ and is not modelled.
\<close>

definition abs_int :: "real \<Rightarrow> real" where
  "abs_int x = real_of_int \<bar>if 0 \<le> x then \<lfloor>x\<rfloor> else \<lceil>x\<rceil>\<bar>"

definition tetrahedron_volume :: "real list \<Rightarrow> real list \<Rightarrow> real list \<Rightarrow> real list \<Rightarrow> real" where
  "tetrahedron_volume p1 p2 p3 p4 =
     (let v1 = pointdiff 3 p1 p4; v2 = pointdiff 3 p2 p4; v3 = pointdiff 3 p3 p4
      in abs_int (determinant3D v1 v2 v3) / 6)"

subsection \<open>Face centroids and tessellation\<close>

text \<open>
  The loops \<open>for (int i = 0, inext = 1; i != n; ++i, inext = (i + 1) % n)\<close>: \<open>inext\<close> is 1
  in the first iteration, whatever \<open>n\<close> is, and \<open>(i + 1) % n\<close> afterwards.
\<close>

definition inext_of :: "nat \<Rightarrow> nat \<Rightarrow> nat" where
  "inext_of i n = (if i = 0 then 1 else (i + 1) mod n)"

text \<open>\<open>centroid_2D\<close>: the loop state is \<open>(result[0], result[1], area)\<close>.\<close>

definition centroid_2D_step :: "real list \<Rightarrow> nat \<Rightarrow> real \<times> real \<times> real \<Rightarrow> nat \<Rightarrow> real \<times> real \<times> real" where
  "centroid_2D_step points num_points st i =
     (case st of (r0, r1, area) \<Rightarrow>
        (let inext = inext_of i num_points;
             fac = (points ! (2 * i) * points ! (2 * inext + 1))
                   - (points ! (2 * inext) * points ! (2 * i + 1))
         in (r0 + (points ! (2 * i) + points ! (2 * inext)) * fac,
             r1 + (points ! (2 * i + 1) + points ! (2 * inext + 1)) * fac,
             area + (1 / 2) * fac)))"

definition centroid_2D :: "real list \<Rightarrow> nat \<Rightarrow> real list" where
  "centroid_2D points num_points =
     (case foldl (centroid_2D_step points num_points) (0, 0, 0) [0..<num_points] of
        (r0, r1, area) \<Rightarrow> [r0 / (6 * area), r1 / (6 * area)])"

text \<open>\<open>centroid_2D_3D\<close>: the loop state is \<open>(result, area)\<close>.\<close>

definition centroid_2D_3D_step :: "real list \<Rightarrow> nat \<Rightarrow> real list \<Rightarrow> real list \<times> real \<Rightarrow> nat \<Rightarrow> real list \<times> real" where
  "centroid_2D_3D_step points num_points inside_point st i =
     (case st of (result, area) \<Rightarrow>
        (let inext = inext_of i num_points;
             tri_area = triarea 3 (drop (3 * i) points) (drop (3 * inext) points) inside_point
         in (map (\<lambda>d. result ! d
                    + tri_area * (points ! (3 * i + d) + points ! (3 * inext + d) + inside_point ! d) / 3)
               [0..<3],
             area + tri_area)))"

definition centroid_2D_3D :: "real list \<Rightarrow> nat \<Rightarrow> real list" where
  "centroid_2D_3D points num_points =
     (let inside_point = point_average 3 points num_points
      in case foldl (centroid_2D_3D_step points num_points inside_point) ([0, 0, 0], 0)
                [0..<num_points] of
           (result, area) \<Rightarrow> map (\<lambda>r. r / area) result)"

definition face_centroid :: "nat \<Rightarrow> real list \<Rightarrow> nat \<Rightarrow> real list" where
  "face_centroid Dim points num_points =
     (if Dim = 2 then centroid_2D points num_points else centroid_2D_3D points num_points)"

text \<open>
  \<open>tessellate_face\<close>: the two triangles of corner \<open>c\<close> are
  (center, corner c, midpoint) and (center, midpoint, corner cnext); a triangle is a
  buffer of \<open>3 * Dim\<close> coordinates.
\<close>

definition tessellate_tris :: "nat \<Rightarrow> real list \<Rightarrow> nat \<Rightarrow> real list \<Rightarrow> nat \<Rightarrow> real list list" where
  "tessellate_tris Dim corners num_corners center c =
     (let cnext = (c + 1) mod num_corners;
          midpt = pointmean Dim (drop (Dim * c) corners) (drop (Dim * cnext) corners)
      in [center @ take Dim (drop (Dim * c) corners) @ midpt,
          center @ midpt @ take Dim (drop (Dim * cnext) corners)])"

definition tessellate_face :: "nat \<Rightarrow> real list \<Rightarrow> nat \<Rightarrow> bool \<Rightarrow> real list list" where
  "tessellate_face Dim corners num_corners skip_if_tri =
     (if skip_if_tri \<and> num_corners = 3 then [take (Dim * num_corners) corners]
      else
        (let center = face_centroid Dim corners num_corners
         in concat (map (tessellate_tris Dim corners num_corners center) [0..<num_corners])))"

text \<open>The value written through the optional \<open>centroid\<close> pointer of \<open>tessellate_face\<close>.\<close>

definition tessellate_face_centroid :: "nat \<Rightarrow> real list \<Rightarrow> nat \<Rightarrow> bool \<Rightarrow> real list option" where
  "tessellate_face_centroid Dim corners num_corners skip_if_tri =
     (if skip_if_tri \<and> num_corners = 3 then None
      else Some (face_centroid Dim corners num_corners))"

subsection \<open>Star point search\<close>

definition tol :: real where
  "tol = 1 / 10 ^ 13"

text \<open>\<open>is_behind_face\<close>: the vector \<open>v\<close> runs from the point to the face centroid.\<close>

definition is_behind_face :: "real list \<Rightarrow> real list \<Rightarrow> real list \<Rightarrow> bool" where
  "is_behind_face point fnormal fcentroid =
     (let v = [fcentroid ! 0 - point ! 0, fcentroid ! 1 - point ! 1,
               fcentroid ! 2 - point ! 2]
      in (v ! 0 * fnormal ! 0 + v ! 1 * fnormal ! 1 + v ! 2 * fnormal ! 2) + tol > 0)"

definition is_star_point :: "real list \<Rightarrow> real list \<Rightarrow> real list \<Rightarrow> bool" where
  "is_star_point point face_normals face_centroids =
     (let N = length face_normals div 3
      in list_all (\<lambda>i. is_behind_face point (drop (3 * i) face_normals) (drop (3 * i) face_centroids))
           [0..<N])"

text \<open>
  The body of the loop of \<open>identify_star_point\<close>, with the increment of the test
  \<open>++count == N\<close>: the new counter and the new candidate point.
\<close>

definition star_step :: "nat \<Rightarrow> real list \<Rightarrow> real list \<Rightarrow> nat \<Rightarrow> nat \<Rightarrow> real list \<Rightarrow> nat \<times> real list" where
  "star_step N face_normals face_centroids i count result =
     (let f_ix = i mod N
      in if \<not> is_behind_face result (drop (3 * f_ix) face_normals) (drop (3 * f_ix) face_centroids)
         then
           (let proj = (result ! 0 - face_centroids ! (3 * f_ix)) * face_normals ! (3 * f_ix)
                     + (result ! 1 - face_centroids ! (3 * f_ix + 1)) * face_normals ! (3 * f_ix + 1)
                     + (result ! 2 - face_centroids ! (3 * f_ix + 2)) * face_normals ! (3 * f_ix + 2)
            in (Suc 0,
                map (\<lambda>ii. result ! ii - (11 / 10) * proj * face_normals ! (3 * f_ix + ii)) [0..<3]))
         else (Suc count, result))"

text \<open>
  The loop \<open>for (int i = 0; i != max_iter; ++i)\<close>: the fourth argument is the number of
  iterations left, \<open>max_iter - i\<close>. The last argument and the last component of the result
  are not in the source: they log the outcome of \<open>is_behind_face\<close> of every iteration that
  ran, in order.
\<close>

primrec star_loop :: "nat \<Rightarrow> real list \<Rightarrow> real list \<Rightarrow> nat \<Rightarrow> nat \<Rightarrow> nat \<Rightarrow> real list \<Rightarrow> bool list
    \<Rightarrow> nat \<times> real list \<times> bool list" where
  "star_loop N face_normals face_centroids 0 i count result checks = (count, result, checks)"
| "star_loop N face_normals face_centroids (Suc left) i count result checks =
     (let f_ix = i mod N;
          behind = is_behind_face result (drop (3 * f_ix) face_normals)
                     (drop (3 * f_ix) face_centroids);
          st = star_step N face_normals face_centroids i count result
      in if fst st = N then (fst st, snd st, checks @ [behind])
         else star_loop N face_normals face_centroids left (Suc i) (fst st) (snd st)
                (checks @ [behind]))"

definition identify_star_point_run :: "real list \<Rightarrow> real list \<Rightarrow> real list \<Rightarrow> nat \<times> real list \<times> bool list" where
  "identify_star_point_run point face_normals face_centroids =
     (let N = length face_normals div 3; max_iter = 20 * N
      in star_loop N face_normals face_centroids max_iter 0 0 point [])"

definition identify_star_point :: "real list \<Rightarrow> real list \<Rightarrow> real list \<Rightarrow> error + real list" where
  "identify_star_point point face_normals face_centroids =
     (let N = length face_normals div 3
      in case identify_star_point_run point face_normals face_centroids of
           (count, result, checks) \<Rightarrow> if count \<noteq> N then Inl runtime_error else Inr result)"


subsection \<open>Cell geometry\<close>

text \<open>\<open>compute_face_geometry\<close>: the unit normal and the centroid of a face.\<close>

definition compute_face_geometry :: "real list \<Rightarrow> real list \<times> real list" where
  "compute_face_geometry points =
     (let num = length points div 3;
          face_tessellation = tessellate_face 3 points num False;
          centroid = face_centroid 3 points num;
          normal = foldl (\<lambda>normal tri.
                      (let tn = trinormal tri (drop 3 tri) (drop 6 tri)
                       in map (\<lambda>d. normal ! d + tn ! d) [0..<3]))
                    [0, 0, 0] face_tessellation;
          n = norm_l2 3 normal
      in (map (\<lambda>d. normal ! d / n) [0..<3], centroid))"

definition extract_local_faces :: "nat list \<Rightarrow> nat list \<Rightarrow> nat \<Rightarrow> nat list" where
  "extract_local_faces faces num_face_edges num_faces =
     take (sum_list (take num_faces num_face_edges)) faces"

text \<open>
  \<open>inward_pointing_normals\<close>: the sum of the scalar products of the face normals with the
  vectors from the mean of the face centroids to the face centroids is negative.
\<close>

definition inward_pointing_normals :: "real list \<Rightarrow> real list \<Rightarrow> bool" where
  "inward_pointing_normals normals face_centroids =
     (let N = length normals div 3;
          mean_point = point_average 3 face_centroids N;
          dists = map (\<lambda>i. map (\<lambda>d. face_centroids ! (3 * i + d) - mean_point ! d) [0..<3]) [0..<N];
          sum = foldl (\<lambda>sum i. foldl (\<lambda>sum d. sum + dists ! i ! d * normals ! (3 * i + d)) sum [0..<3])
                  0 [0..<N]
      in sum < 0)"

text \<open>The offset of face \<open>f\<close> in the flattened corner list.\<close>

definition face_offset :: "nat list \<Rightarrow> nat \<Rightarrow> nat" where
  "face_offset num_face_edges f = sum_list (take f num_face_edges)"

text \<open>
  \<open>compute_cell_geometry\<close> returns the outward normals, the face centroids, the cell
  centroid, the star point and the volume. \<open>assert(false)\<close> is the error
  \<open>assertion_failure\<close> (a build with assertions).
\<close>

definition cell_volume_centroid :: "real list \<Rightarrow> nat list \<Rightarrow> nat list \<Rightarrow> nat \<Rightarrow> real list \<Rightarrow> real \<times> real list" where
  "cell_volume_centroid points faces num_face_edges num_faces star_point =
     foldl (\<lambda>st f.
        foldl (\<lambda>st tri0. case st of (volume, cell_centroid) \<Rightarrow>
            (let tri = tri0 @ take 3 star_point;
                 tvol = tetrahedron_volume tri (drop 3 tri) (drop 6 tri) (drop 9 tri);
                 tet_centroid = point_average 3 tri 4
             in (volume + tvol, map (\<lambda>d. cell_centroid ! d + tvol * tet_centroid ! d) [0..<3])))
          st
          (tessellate_face 3
             (pick_points 3 points (drop (face_offset num_face_edges f) faces) (num_face_edges ! f))
             (num_face_edges ! f) True))
       (0, [0, 0, 0]) [0..<num_faces]"

text \<open>The first loop of \<open>compute_cell_geometry\<close>: the normals and centroids of all faces.\<close>

definition cell_face_geometry :: "real list \<Rightarrow> nat list \<Rightarrow> nat list \<Rightarrow> nat \<Rightarrow> real list \<times> real list" where
  "cell_face_geometry points faces num_face_edges num_faces =
     (let faces2 = extract_local_faces faces num_face_edges num_faces;
          geo = map (\<lambda>f. compute_face_geometry
                      (pick_points 3 points (drop (face_offset num_face_edges f) faces2)
                         (num_face_edges ! f))) [0..<num_faces]
      in (concat (map fst geo), concat (map snd geo)))"

definition compute_cell_geometry :: "real list \<Rightarrow> nat \<Rightarrow> nat list \<Rightarrow> nat list \<Rightarrow> nat
    \<Rightarrow> error + (real list \<times> real list \<times> real list \<times> real list \<times> real)" where
  "compute_cell_geometry points num_points faces num_face_edges num_faces =
     (case cell_face_geometry points faces num_face_edges num_faces of
        (outward_normals, face_centroids) \<Rightarrow>
         if inward_pointing_normals outward_normals face_centroids then Inl assertion_failure
         else
           (case identify_star_point (point_average 3 points num_points) outward_normals
                   face_centroids of
              Inl e \<Rightarrow> Inl e
            | Inr star_point0 \<Rightarrow>
                (case cell_volume_centroid points faces num_face_edges num_faces star_point0 of
                   (volume, cc) \<Rightarrow>
                     (let cell_centroid = map (\<lambda>c. c / volume) cc;
                          star_point = (if is_star_point cell_centroid outward_normals face_centroids
                                        then cell_centroid else star_point0)
                      in Inr (outward_normals, face_centroids, cell_centroid, star_point, volume)))))"

subsection \<open>Dense matrices\<close>

text \<open>
  A dense matrix is a buffer in row-major order. A function that can throw or fail an
  assertion returns \<open>error + 'a\<close>; \<open>bnd\<close> passes the error of a call on to the caller, and
  \<open>check\<close> is \<open>assert\<close>.
\<close>

definition bnd :: "error + 'a \<Rightarrow> ('a \<Rightarrow> error + 'b) \<Rightarrow> error + 'b" where
  "bnd m f = (case m of Inl e \<Rightarrow> Inl e | Inr x \<Rightarrow> f x)"

definition check :: "bool \<Rightarrow> error + unit" where
  "check P = (if P then Inr () else Inl assertion_failure)"

definition matmul :: "real list \<Rightarrow> nat \<Rightarrow> nat \<Rightarrow> bool \<Rightarrow> real list \<Rightarrow> nat \<Rightarrow> nat \<Rightarrow> bool \<Rightarrow> real
    \<Rightarrow> error + real list" where
  "matmul data1 r1 c1 transposed1 data2 r2 c2 transposed2 fac =
     (let dim1 = (if transposed1 then (c1, r1) else (r1, c1));
          dim2 = (if transposed2 then (c2, r2) else (r2, c2));
          stride1 = (if transposed1 then (1, c1) else (c1, 1));
          stride2 = (if transposed2 then (1, c2) else (c2, 1))
      in if snd dim1 \<noteq> fst dim2 then Inl invalid_argument
         else
           (let result = concat (map (\<lambda>r. map (\<lambda>c.
                    foldl (\<lambda>acc k. acc + data1 ! (r * fst stride1 + k * snd stride1)
                                         * data2 ! (k * fst stride2 + c * snd stride2))
                      0 [0..<snd dim1]) [0..<snd dim2]) [0..<fst dim1])
            in Inr (if fac \<noteq> 1 then map (\<lambda>e. e * fac) result else result)))"

text \<open>\<open>std::sqrt\<close> of a size, truncated to an integer.\<close>

definition floor_sqrt :: "nat \<Rightarrow> nat" where
  "floor_sqrt n = length (takeWhile (\<lambda>k. Suc k * Suc k \<le> n) [0..<n])"

definition trace :: "real list \<Rightarrow> error + real" where
  "trace A =
     (let N = floor_sqrt (length A)
      in bnd (check (N * N = length A))
           (\<lambda>_. Inr (foldl (\<lambda>result i. result + A ! (i + N * i)) 0 [0..<N])))"

definition diag_elems :: "real list \<Rightarrow> real list" where
  "diag_elems A = (let N = floor_sqrt (length A) in map (\<lambda>i. A ! (i * N + i)) [0..<N])"

definition invtrace :: "real list \<Rightarrow> real" where
  "invtrace A =
     (let diag = diag_elems A
      in foldl (\<lambda>result i. result + 1 / diag ! i) 0 [0..<length diag])"

definition identity_matrix :: "real \<Rightarrow> nat \<Rightarrow> real list" where
  "identity_matrix fac N =
     foldl (\<lambda>result i. result[i + N * i := fac]) (replicate (N * N) 0) [0..<N]"

subsection \<open>Stability term and local stiffness matrix\<close>

datatype StabilityChoice = SIMPLE | HARMONIC | D_RECIPE

definition compute_S :: "real list \<Rightarrow> real list \<Rightarrow> nat \<Rightarrow> real \<Rightarrow> nat \<Rightarrow> StabilityChoice
    \<Rightarrow> error + real list" where
  "compute_S Nc D num_corners volume dimen stability_choice =
     bnd (check (dimen = 2 \<or> dimen = 3)) (\<lambda>_.
     bnd (check (stability_choice = SIMPLE \<or> stability_choice = HARMONIC)) (\<lambda>_.
       (let r = dimen * num_corners; c = (if dimen = 2 then 3 else 6)
        in bnd (matmul Nc r c True Nc r c False 1) (\<lambda>NtN.
           bnd (if stability_choice = SIMPLE
                then bnd (trace D) (\<lambda>tD. bnd (trace NtN) (\<lambda>tN. Inr (volume * tD / tN)))
                else bnd (trace D) (\<lambda>tD. Inr ((1 / 9) * volume * tD * invtrace NtN)))
             (\<lambda>alpha. Inr (identity_matrix alpha (dimen * num_corners)))))))"

definition compute_S_D_recipe :: "real list \<Rightarrow> nat \<Rightarrow> real \<Rightarrow> real list" where
  "compute_S_D_recipe EWcDWct dofs volume =
     (let h = root 3 volume
      in foldl (\<lambda>result i. result[i + dofs * i := max h (EWcDWct ! (i + dofs * i))])
           (replicate (dofs * dofs) 0) [0..<dofs])"

text \<open>
  \<open>final_assembly\<close>. \<open>num_nodes\<close> and \<open>dim\<close> (here \<open>dimen\<close>) are passed as \<open>double\<close> in the source and hold
  whole numbers. \<open>final_assembly_EWcDWct\<close> is the consistent part and \<open>final_assembly_S\<close> the
  stability matrix \<open>S\<close> that the function computes on its way.
\<close>

definition final_assembly_EWcDWct :: "real list \<Rightarrow> real list \<Rightarrow> real \<Rightarrow> nat \<Rightarrow> nat
    \<Rightarrow> error + real list" where
  "final_assembly_EWcDWct Wc D volume num_nodes dimen =
     bnd (check (dimen = 2 \<or> dimen = 3)) (\<lambda>_.
       (let lsdim = (if dimen = 2 then 3 else 6); totdim = dimen * num_nodes
        in bnd (matmul D lsdim lsdim False Wc totdim lsdim True 1) (\<lambda>DWct.
           matmul Wc totdim lsdim False DWct lsdim totdim False volume)))"

definition final_assembly_S :: "real list \<Rightarrow> real list \<Rightarrow> real list \<Rightarrow> StabilityChoice \<Rightarrow> real
    \<Rightarrow> nat \<Rightarrow> nat \<Rightarrow> error + real list" where
  "final_assembly_S Wc D Nc stability_choice volume num_nodes dimen =
     bnd (final_assembly_EWcDWct Wc D volume num_nodes dimen) (\<lambda>EWcDWct.
       if stability_choice = D_RECIPE
       then Inr (compute_S_D_recipe EWcDWct (dimen * num_nodes) volume)
       else compute_S Nc D num_nodes volume dimen stability_choice)"

definition final_assembly :: "real list \<Rightarrow> real list \<Rightarrow> real list \<Rightarrow> real list \<Rightarrow> StabilityChoice
    \<Rightarrow> real \<Rightarrow> nat \<Rightarrow> nat \<Rightarrow> error + real list" where
  "final_assembly Wc D Nc ImP stability_choice volume num_nodes dimen =
     bnd (final_assembly_EWcDWct Wc D volume num_nodes dimen) (\<lambda>EWcDWct.
     bnd (final_assembly_S Wc D Nc stability_choice volume num_nodes dimen) (\<lambda>S.
       (let totdim = dimen * num_nodes
        in bnd (matmul S totdim totdim False ImP totdim totdim False 1) (\<lambda>SImP.
           bnd (matmul ImP totdim totdim True SImP totdim totdim False 1) (\<lambda>ImpSImp.
           bnd (check (length EWcDWct = length ImpSImp)) (\<lambda>_.
             Inr (map2 (+) EWcDWct ImpSImp)))))))"

subsection \<open>Face integral\<close>

text \<open>
  \<open>face_integral_impl\<close>; a null pointer for \<open>corner_values\<close> is \<open>None\<close>. Its assertion
  \<open>tris.size() == 2 * num_corners\<close> holds for every input (\<open>length_tessellate_face\<close> below)
  and is not modelled as an error; the same holds for the same assertion in
  \<open>compute_bodyforce_2D\<close> and \<open>compute_bodyforce_3D\<close>.
\<close>

definition face_integral_impl :: "nat \<Rightarrow> real list \<Rightarrow> nat \<Rightarrow> real list option \<Rightarrow> real" where
  "face_integral_impl Dim corners num_corners corner_values =
     (let tris = tessellate_face Dim corners num_corners False
      in foldl (\<lambda>result i.
           (let t1 = tris ! (2 * i);
                t2 = tris ! (2 * i + 1);
                inext = (i + 1) mod num_corners;
                fval1 = (case corner_values of Some cv \<Rightarrow> cv ! i | None \<Rightarrow> 1);
                fval2 = (case corner_values of Some cv \<Rightarrow> cv ! inext | None \<Rightarrow> 1)
            in result + triarea Dim t1 (drop Dim t1) (drop (2 * Dim) t1) * fval1
                      + triarea Dim t2 (drop Dim t2) (drop (2 * Dim) t2) * fval2))
         0 [0..<num_corners])"

text \<open>\<open>face_integral\<close>: every caller passes 2 or 3 for \<open>dim\<close>, as its assertion demands.\<close>

definition face_integral :: "real list \<Rightarrow> nat \<Rightarrow> nat \<Rightarrow> real list option \<Rightarrow> real" where
  "face_integral corners num_corners dimen corner_values =
     (if dimen = 2 then face_integral_impl 2 corners num_corners corner_values
      else face_integral_impl 3 corners num_corners corner_values)"

definition element_volume_2D :: "real list \<Rightarrow> nat \<Rightarrow> real" where
  "element_volume_2D corners num_faces = face_integral corners num_faces 2 None"

subsection \<open>The matrices of the virtual element method\<close>

definition matentry_2D :: "real \<Rightarrow> real \<Rightarrow> real \<Rightarrow> real \<Rightarrow> real list" where
  "matentry_2D e1 e2 e3 e4 = [e1, 0, e2, 0, e3, e4]"

definition matentry_3D :: "real \<Rightarrow> real \<Rightarrow> real \<Rightarrow> real \<Rightarrow> real \<Rightarrow> real \<Rightarrow> real \<Rightarrow> real \<Rightarrow> real
    \<Rightarrow> real list" where
  "matentry_3D e1 e2 e3 e4 e5 e6 e7 e8 e9 =
     [e1, 0, 0, e2, 0, e3, 0, e4, 0, e5, e6, 0, 0, 0, e7, 0, e8, e9]"

definition compute_q_2D :: "real list \<Rightarrow> nat \<Rightarrow> real list" where
  "compute_q_2D corners num_corners =
     (let fac = 1 / (4 * element_volume_2D corners num_corners)
      in foldl (\<lambda>result i.
           (let inext = inext_of i num_corners;
                scaled_normal = [corners ! (2 * inext + 1) - corners ! (2 * i + 1),
                                 - (corners ! (2 * inext + 0) - corners ! (2 * i + 0))]
            in foldl (\<lambda>result d.
                 (let result1 = result[i * 2 + d := result ! (i * 2 + d) + fac * scaled_normal ! d]
                  in result1[inext * 2 + d := result1 ! (inext * 2 + d) + fac * scaled_normal ! d]))
               result [0..<2]))
         (replicate (num_corners * 2) 0) [0..<num_corners])"

definition compute_q_3D :: "real list \<Rightarrow> nat \<Rightarrow> nat list \<Rightarrow> nat list \<Rightarrow> nat \<Rightarrow> real \<Rightarrow> real list
    \<Rightarrow> real list" where
  "compute_q_3D corners num_corners faces num_face_edges num_faces volume outward_normals =
     (let fac = 1 / (2 * volume)
      in foldl (\<lambda>result f.
           (let facecorners = pick_points 3 corners (drop (face_offset num_face_edges f) faces)
                                (num_face_edges ! f);
                normal = drop (3 * f) outward_normals
            in foldl (\<lambda>result e.
                 (let cur_vertex_ix = face_offset num_face_edges f + e;
                      cvals = (replicate (num_face_edges ! f) 0)[e := 1];
                      phi = face_integral facecorners (num_face_edges ! f) 3 (Some cvals)
                  in foldl (\<lambda>result d.
                       result[3 * faces ! cur_vertex_ix + d :=
                         result ! (3 * faces ! cur_vertex_ix + d) + fac * phi * normal ! d])
                     result [0..<3]))
               result [0..<num_face_edges ! f]))
         (replicate (num_corners * 3) 0) [0..<num_faces])"

definition compute_Nr_2D :: "real list \<Rightarrow> nat \<Rightarrow> real list" where
  "compute_Nr_2D corners num_corners =
     (let midpoint = point_average 2 corners num_corners
      in concat (map (\<lambda>i. matentry_2D 1 (corners ! (2 * i + 1) - midpoint ! 1) 1
                            (- (corners ! (2 * i) - midpoint ! 0))) [0..<num_corners]))"

definition compute_Nr_3D :: "real list \<Rightarrow> nat \<Rightarrow> real list" where
  "compute_Nr_3D corners num_corners =
     (let midpoint = point_average 3 corners num_corners
      in concat (map (\<lambda>i. matentry_3D 1
                            (corners ! (3 * i + 1) - midpoint ! 1)
                            (- (corners ! (3 * i + 2) - midpoint ! 2))
                            1
                            (- (corners ! (3 * i) - midpoint ! 0))
                            (corners ! (3 * i + 2) - midpoint ! 2)
                            1
                            (- (corners ! (3 * i + 1) - midpoint ! 1))
                            (corners ! (3 * i) - midpoint ! 0)) [0..<num_corners]))"

definition compute_Nc_3D :: "real list \<Rightarrow> nat \<Rightarrow> real list" where
  "compute_Nc_3D corners num_corners =
     (let mid = point_average 3 corners num_corners
      in concat (map (\<lambda>i. matentry_3D (corners ! (3 * i) - mid ! 0)
                            (corners ! (3 * i + 1) - mid ! 1)
                            (corners ! (3 * i + 2) - mid ! 2)
                            (corners ! (3 * i + 1) - mid ! 1)
                            (corners ! (3 * i) - mid ! 0)
                            (corners ! (3 * i + 2) - mid ! 2)
                            (corners ! (3 * i + 2) - mid ! 2)
                            (corners ! (3 * i + 1) - mid ! 1)
                            (corners ! (3 * i) - mid ! 0)) [0..<num_corners]))"

definition compute_Nc_2D :: "real list \<Rightarrow> nat \<Rightarrow> real list" where
  "compute_Nc_2D corners num_corners =
     (let midpoint = point_average 2 corners num_corners
      in concat (map (\<lambda>i. matentry_2D (corners ! (2 * i) - midpoint ! 0)
                            (corners ! (2 * i + 1) - midpoint ! 1)
                            (corners ! (2 * i + 1) - midpoint ! 1)
                            (corners ! (2 * i) - midpoint ! 0)) [0..<num_corners]))"

definition compute_Wr_3D :: "real list \<Rightarrow> error + real list" where
  "compute_Wr_3D q =
     (let num_corners = length q div 3; ncinv = 1 / real num_corners
      in bnd (check (num_corners * 3 = length q)) (\<lambda>_.
           Inr (concat (map (\<lambda>i. matentry_3D ncinv (q ! (3 * i + 1)) (- q ! (3 * i + 2)) ncinv
                                  (- q ! (3 * i)) (q ! (3 * i + 2)) ncinv (- q ! (3 * i + 1))
                                  (q ! (3 * i))) [0..<num_corners]))))"

definition compute_Wr_2D :: "real list \<Rightarrow> error + real list" where
  "compute_Wr_2D q =
     (let num_corners = length q div 2
      in bnd (check (num_corners * 2 = length q)) (\<lambda>_.
           Inr (concat (map (\<lambda>i. matentry_2D (1 / real num_corners) (q ! (2 * i + 1))
                                  (1 / real num_corners) (- q ! (2 * i))) [0..<num_corners]))))"

definition compute_Wc_3D :: "real list \<Rightarrow> error + real list" where
  "compute_Wc_3D q =
     (let num_corners = length q div 3
      in bnd (check (num_corners * 3 = length q)) (\<lambda>_.
           Inr (concat (map (\<lambda>i. matentry_3D (2 * q ! (3 * i)) (q ! (3 * i + 1)) (q ! (3 * i + 2))
                                  (2 * q ! (3 * i + 1)) (q ! (3 * i)) (q ! (3 * i + 2))
                                  (2 * q ! (3 * i + 2)) (q ! (3 * i + 1)) (q ! (3 * i)))
                          [0..<num_corners]))))"

definition compute_Wc_2D :: "real list \<Rightarrow> error + real list" where
  "compute_Wc_2D q =
     (let num_corners = length q div 2
      in bnd (check (num_corners * 2 = length q)) (\<lambda>_.
           Inr (concat (map (\<lambda>i. matentry_2D (2 * q ! (2 * i)) (q ! (2 * i + 1))
                                  (2 * q ! (2 * i + 1)) (q ! (2 * i))) [0..<num_corners]))))"

definition compute_D_2D :: "real \<Rightarrow> real \<Rightarrow> real list" where
  "compute_D_2D young poisson =
     (let fac = young / (1 + poisson) / (1 - 2 * poisson)
      in map (\<lambda>d. d * fac)
           [1 - poisson, poisson, 0, poisson, 1 - poisson, 0, 0, 0, 2 * (1 - 2 * poisson)])"

definition compute_D_3D :: "real \<Rightarrow> real \<Rightarrow> real list" where
  "compute_D_3D young poisson =
     (let fac = young / (1 + poisson) / (1 - 2 * poisson)
      in map (\<lambda>d. d * fac)
           [1 - poisson, poisson, poisson, 0, 0, 0,
            poisson, 1 - poisson, poisson, 0, 0, 0,
            poisson, poisson, 1 - poisson, 0, 0, 0,
            0, 0, 0, 2 * (1 - 2 * poisson), 0, 0,
            0, 0, 0, 0, 2 * (1 - 2 * poisson), 0,
            0, 0, 0, 0, 0, 2 * (1 - 2 * poisson)])"

definition compute_ImP :: "real list \<Rightarrow> real list \<Rightarrow> real list \<Rightarrow> real list \<Rightarrow> nat \<Rightarrow> error + real list" where
  "compute_ImP Nr Nc Wr Wc dimen =
     bnd (check (dimen = 2 \<or> dimen = 3)) (\<lambda>_.
       (let N = (if dimen = 2 then length Nc div 6 else length Nc div 18);
            r = dimen * N;
            c = (if dimen = 2 then 3 else 6)
        in bnd (matmul Nr r c False Wr r c True 1) (\<lambda>Pr.
           bnd (matmul Nc r c False Wc r c True 1) (\<lambda>Pc.
             (let result = identity_matrix 1 (N * dimen)
              in bnd (check (length result = length Pr)) (\<lambda>_.
                   Inr (map (\<lambda>i. result ! i - (Pr ! i + Pc ! i)) [0..<length result])))))))"

subsection \<open>Loads\<close>

definition compute_bodyforce_2D :: "real list \<Rightarrow> nat list \<Rightarrow> nat \<Rightarrow> real list \<Rightarrow> real list \<Rightarrow> real list" where
  "compute_bodyforce_2D points cell_corners number_cell_faces bforce target =
     (let coords = pick_points 2 points cell_corners number_cell_faces;
          tris = tessellate_face 2 coords number_cell_faces False
      in foldl (\<lambda>target c.
           foldl (\<lambda>target d.
               (let ix = 2 * ((c div 2 + c mod 2) mod number_cell_faces) + d
                in target[ix := target ! ix
                     + bforce ! d * triarea 2 (tris ! c) (drop 2 (tris ! c)) (drop 4 (tris ! c))]))
             target [0..<2])
         target [0..<2 * number_cell_faces])"

definition compute_applied_forces_2D :: "real list \<Rightarrow> nat \<Rightarrow> nat \<Rightarrow> real \<Rightarrow> real \<Rightarrow> real list" where
  "compute_applied_forces_2D points n1 n2 fx fy =
     (let hL = norm_l2 2 (pointdiff 2 (drop (2 * n1) points) (drop (2 * n2) points)) / 2
      in [hL * fx, hL * fy, hL * fx, hL * fy])"

definition compute_applied_forces_3D :: "real list \<Rightarrow> nat list \<Rightarrow> nat list \<Rightarrow> nat \<Rightarrow> nat list \<Rightarrow> real list
    \<Rightarrow> real list \<Rightarrow> real list" where
  "compute_applied_forces_3D points num_face_corners face_corners num_neumann_faces neumann_faces
       neumann_forces b_global =
     foldl (\<lambda>b_global nf.
        (let nfc = num_face_corners ! (neumann_faces ! nf);
             ix_start = sum_list (take (neumann_faces ! nf) num_face_corners);
             face_corners_loc = pick_points 3 points (drop ix_start face_corners) nfc;
             tris = tessellate_face 3 face_corners_loc nfc False
         in foldl (\<lambda>b_global c.
              (let area = triarea 3 (tris ! c) (drop 3 (tris ! c)) (drop 6 (tris ! c));
                   corner = (c div 2 + c mod 2) mod nfc
               in foldl (\<lambda>b_global d.
                    (let ix = 3 * face_corners ! (ix_start + corner) + d
                     in b_global[ix := b_global ! ix + neumann_forces ! (3 * nf + d) * area]))
                  b_global [0..<3]))
            b_global [0..<2 * nfc]))
       b_global [0..<num_neumann_faces]"

definition compute_bodyforce_3D :: "real list \<Rightarrow> nat list \<Rightarrow> nat list \<Rightarrow> nat \<Rightarrow> real list \<Rightarrow> real list
    \<Rightarrow> real list \<Rightarrow> real list" where
  "compute_bodyforce_3D points face_corners num_face_corners num_faces centroid bforce b_global =
     foldl (\<lambda>b_global f.
        (let fcorner_start = face_offset num_face_corners f;
             nfc = num_face_corners ! f;
             fpts = pick_points 3 points (drop fcorner_start face_corners) nfc;
             tris = tessellate_face 3 fpts (length fpts div 3) False
         in foldl (\<lambda>b_global c.
              (let t1 = tris ! (2 * c);
                   t2 = (if c = 0 then last tris else tris ! (2 * c - 1));
                   vol1 = tetrahedron_volume t1 (drop 3 t1) (drop 6 t1) centroid;
                   vol2 = tetrahedron_volume t2 (drop 3 t2) (drop 6 t2) centroid
               in foldl (\<lambda>b_global d.
                    (let ix = 3 * face_corners ! (fcorner_start + c) + d
                     in b_global[ix := b_global ! ix + (vol1 + vol2) * bforce ! d]))
                  b_global [0..<3]))
            b_global [0..<nfc]))
       b_global [0..<num_faces]"

subsection \<open>Local stiffness matrices\<close>

text \<open>
  \<open>global_to_local_indexing\<close> returns the map from global to local indices and the
  sorted list of the distinct global indices (the output argument \<open>indexing\<close>).
\<close>

definition global_to_local_indexing :: "nat list \<Rightarrow> nat list \<Rightarrow> nat \<Rightarrow> (nat \<rightharpoonup> nat) \<times> nat list" where
  "global_to_local_indexing faces num_face_edges num_faces =
     (let faces_len = sum_list (take num_faces num_face_edges);
          indexing = sorted_list_of_set (set (take faces_len faces));
          reindex = foldl (\<lambda>reindex i. reindex(indexing ! i \<mapsto> i)) Map.empty
                      [0..<length indexing]
      in (reindex, indexing))"

definition assemble_stiffness_matrix_2D :: "real list \<Rightarrow> nat list \<Rightarrow> nat \<Rightarrow> real \<Rightarrow> real
    \<Rightarrow> StabilityChoice \<Rightarrow> error + real list" where
  "assemble_stiffness_matrix_2D points corner_ixs num_corners young poisson stability_choice =
     (let corners = pick_points 2 points corner_ixs num_corners;
          area = element_volume_2D corners num_corners;
          q = compute_q_2D corners num_corners;
          Nr = compute_Nr_2D corners num_corners;
          Nc = compute_Nc_2D corners num_corners
      in bnd (compute_Wr_2D q) (\<lambda>Wr.
         bnd (compute_Wc_2D q) (\<lambda>Wc.
           (let D = compute_D_2D young poisson
            in bnd (compute_ImP Nr Nc Wr Wc 2) (\<lambda>ImP.
                 final_assembly Wc D Nc ImP stability_choice area num_corners 2)))))"

text \<open>
  \<open>assemble_stiffness_matrix_3D\<close> returns the cell centroid, the indexing and the local
  matrix.
\<close>

definition assemble_stiffness_matrix_3D :: "real list \<Rightarrow> nat list \<Rightarrow> nat list \<Rightarrow> nat \<Rightarrow> real \<Rightarrow> real
    \<Rightarrow> StabilityChoice \<Rightarrow> error + (real list \<times> nat list \<times> real list)" where
  "assemble_stiffness_matrix_3D points faces num_face_edges num_faces young poisson
       stability_choice =
     (case global_to_local_indexing faces num_face_edges num_faces of
        (reindex, indexing) \<Rightarrow>
          (let num_corners = length indexing;
               num_face_entries = sum_list (take num_faces num_face_edges);
               corners_loc = pick_points 3 points indexing num_corners;
               faces_loc = map (\<lambda>I. the (reindex I)) (take num_face_entries faces)
           in bnd (compute_cell_geometry corners_loc num_corners faces_loc num_face_edges num_faces)
                (\<lambda>geo. case geo of
                   (outward_normals, face_centroids, centroid, star_point, volume) \<Rightarrow>
                     (let q = compute_q_3D corners_loc (length corners_loc div 3) faces_loc
                                num_face_edges num_faces volume outward_normals;
                          Nr = compute_Nr_3D corners_loc num_corners;
                          Nc = compute_Nc_3D corners_loc num_corners
                      in bnd (compute_Wr_3D q) (\<lambda>Wr.
                         bnd (compute_Wc_3D q) (\<lambda>Wc.
                           (let D = compute_D_3D young poisson
                            in bnd (compute_ImP Nr Nc Wr Wc 3) (\<lambda>ImP.
                               bnd (final_assembly Wc D Nc ImP stability_choice volume
                                      num_corners 3) (\<lambda>target.
                                 Inr (centroid, indexing, target))))))))))"

subsection \<open>Global assembly\<close>

subsubsection \<open>Boundary conditions\<close>

text \<open>
  The system matrix is a list of triplets (row, column, value); the indices of the fixed
  degrees of freedom are the \<open>int\<close>s of the source, and \<open>num_fixed_dofs\<close> says how many
  entries of \<open>fixed_dof_ixs\<close> and \<open>fixed_dof_values\<close> are read.
\<close>

type_synonym triplet = "nat \<times> nat \<times> real"

definition trow :: "triplet \<Rightarrow> nat" where
  "trow el = fst el"

definition tcol :: "triplet \<Rightarrow> nat" where
  "tcol el = fst (snd el)"

definition tval :: "triplet \<Rightarrow> real" where
  "tval el = snd (snd el)"

text \<open>
  \<open>std::sort\<close> by column; the order it gives to entries of one column is unspecified, the
  model keeps their order.
\<close>

definition sort_by_column :: "triplet list \<Rightarrow> triplet list" where
  "sort_by_column A = sort_key tcol A"

text \<open>\<open>std::lower_bound\<close> and \<open>std::find_if\<close> on the column-sorted entries, as positions.\<close>

definition lower_bound_col :: "triplet list \<Rightarrow> nat \<Rightarrow> int \<Rightarrow> nat" where
  "lower_bound_col A first dof = first + length (takeWhile (\<lambda>a. int (tcol a) < dof) (drop first A))"

definition find_col_end :: "triplet list \<Rightarrow> nat \<Rightarrow> int \<Rightarrow> nat" where
  "find_col_end A start dof = start + length (takeWhile (\<lambda>a. \<not> int (tcol a) \<noteq> dof) (drop start A))"

text \<open>
  The loop that moves the columns of the fixed degrees of freedom to the right-hand side.
  Both functions have it; \<open>set_boundary_conditions\<close> also sets the moved matrix element to
  zero (\<open>zero\<close>). The state is \<open>(A, b, cur_end)\<close>.
\<close>

definition move_entry :: "bool \<Rightarrow> real \<Rightarrow> triplet list \<times> real list \<Rightarrow> nat \<Rightarrow> triplet list \<times> real list" where
  "move_entry zero fixed_value st k =
     (case st of (A, b) \<Rightarrow>
        (let el = A ! k;
             b' = b[trow el := b ! trow el - tval el * fixed_value]
         in (if zero then A[k := (trow el, tcol el, 0)] else A, b')))"

definition move_column :: "bool \<Rightarrow> int list \<Rightarrow> real list
    \<Rightarrow> triplet list \<times> real list \<times> nat \<Rightarrow> nat \<Rightarrow> triplet list \<times> real list \<times> nat" where
  "move_column zero fixed_dof_ixs fixed_dof_values st i =
     (case st of (A, b, cur_end) \<Rightarrow>
        (let dof = fixed_dof_ixs ! i;
             start = lower_bound_col A cur_end dof
         in if start \<noteq> length A \<and> int (tcol (A ! start)) = dof
            then
              (let cur_end' = find_col_end A start dof;
                   Ab = foldl (move_entry zero (fixed_dof_values ! i)) (A, b) [start..<cur_end']
               in (fst Ab, snd Ab, cur_end'))
            else (A, b, cur_end)))"

definition move_columns :: "bool \<Rightarrow> nat \<Rightarrow> int list \<Rightarrow> real list \<Rightarrow> triplet list \<Rightarrow> real list
    \<Rightarrow> triplet list \<times> real list" where
  "move_columns zero num_fixed_dofs fixed_dof_ixs fixed_dof_values A b =
     (case foldl (move_column zero fixed_dof_ixs fixed_dof_values) (A, b, 0) [0..<num_fixed_dofs] of
        (A', b', cur_end) \<Rightarrow> (A', b'))"

text \<open>\<open>std::set_difference\<close> of two ascending ranges.\<close>

fun set_difference :: "int list \<Rightarrow> int list \<Rightarrow> int list" where
  "set_difference [] ys = []"
| "set_difference (x # xs) [] = x # xs"
| "set_difference (x # xs) (y # ys) =
     (if x < y then x # set_difference xs (y # ys)
      else if y < x then set_difference (x # xs) ys
      else set_difference xs ys)"

text \<open>
  The renumbering: \<open>renum\<close> lists the degrees of freedom that are kept, \<open>renum_inv\<close> maps a
  kept degree of freedom to its new number and a fixed one to \<open>discard_flag\<close>.
\<close>

definition compute_renum :: "nat \<Rightarrow> nat \<Rightarrow> int list \<Rightarrow> int list" where
  "compute_renum bsize num_fixed_dofs fixed_dof_ixs =
     set_difference (map int [0..<bsize]) (take num_fixed_dofs fixed_dof_ixs)"

definition discard_flag :: "nat \<Rightarrow> nat" where
  "discard_flag bsize = bsize + 1"

definition compute_renum_inv :: "nat \<Rightarrow> int list \<Rightarrow> nat list" where
  "compute_renum_inv bsize renum =
     foldl (\<lambda>renum_inv i. renum_inv[nat (renum ! i) := i])
       (replicate bsize (discard_flag bsize)) [0..<length renum]"

text \<open>
  \<open>reduce_system\<close> and \<open>set_boundary_conditions\<close> change \<open>A\<close> and \<open>b\<close> in place: the result
  is the exception thrown, if any, and \<open>A\<close> and \<open>b\<close> as they are when the function is left.
\<close>

definition reduce_system :: "triplet list \<Rightarrow> real list \<Rightarrow> nat \<Rightarrow> int list \<Rightarrow> real list
    \<Rightarrow> error option \<times> triplet list \<times> real list" where
  "reduce_system A b num_fixed_dofs fixed_dof_ixs fixed_dof_values =
     (if \<not> sorted (take num_fixed_dofs fixed_dof_ixs) then (Some invalid_argument, A, b)
      else
        (case move_columns False num_fixed_dofs fixed_dof_ixs fixed_dof_values
                (sort_by_column A) b of
           (A1, b1) \<Rightarrow>
             (let renum = compute_renum (length b1) num_fixed_dofs fixed_dof_ixs;
                  flag = discard_flag (length b1);
                  renum_inv = compute_renum_inv (length b1) renum;
                  A2 = filter (\<lambda>el. \<not> (renum_inv ! trow el = flag \<or> renum_inv ! tcol el = flag)) A1;
                  A3 = map (\<lambda>el. (renum_inv ! trow el, renum_inv ! tcol el, tval el)) A2;
                  b2 = foldl (\<lambda>b i. b[i := b ! nat (renum ! i)]) b1 [0..<length renum]
              in (None, A3, take (length renum) b2))))"

definition set_boundary_conditions :: "triplet list \<Rightarrow> real list \<Rightarrow> nat \<Rightarrow> int list \<Rightarrow> real list
    \<Rightarrow> error option \<times> triplet list \<times> real list" where
  "set_boundary_conditions A b num_fixed_dofs fixed_dof_ixs fixed_dof_values =
     (if \<not> sorted (take num_fixed_dofs fixed_dof_ixs) then (Some invalid_argument, A, b)
      else
        (case move_columns True num_fixed_dofs fixed_dof_ixs fixed_dof_values
                (sort_by_column A) b of
           (A1, b1) \<Rightarrow>
             (let renum = compute_renum (length b1) num_fixed_dofs fixed_dof_ixs;
                  flag = discard_flag (length b1);
                  renum_inv = compute_renum_inv (length b1) renum;
                  A2 = map (\<lambda>el.
                         (let is_diag = (trow el = tcol el);
                              is_dof = (renum_inv ! trow el = flag \<or> renum_inv ! tcol el = flag)
                          in if is_dof
                             then (if is_diag then (trow el, tcol el, 1) else (trow el, tcol el, 0))
                             else el)) A1;
                  b2 = foldl (\<lambda>b i. b[nat (fixed_dof_ixs ! i) := fixed_dof_values ! i]) b1
                         [0..<num_fixed_dofs]
              in (None, A2, b2))))"

text \<open>\<open>sparse2full\<close>: the dense matrix of a triplet list; repeated coordinates add up.\<close>

definition sparse2full :: "triplet list \<Rightarrow> nat \<Rightarrow> nat \<Rightarrow> real list" where
  "sparse2full nz r c =
     foldl (\<lambda>result el. (let ix = trow el * r + tcol el in result[ix := result ! ix + tval el]))
       (replicate (r * c) 0) nz"

subsubsection \<open>Assembly of the system\<close>

text \<open>
  The triplets of a local matrix \<open>loc\<close> with \<open>n\<close> rows and columns; \<open>glob i\<close> is the global
  degree of freedom of the local one.
\<close>

definition local_triplets :: "nat \<Rightarrow> (nat \<Rightarrow> nat) \<Rightarrow> real list \<Rightarrow> triplet list" where
  "local_triplets n glob loc =
     concat (map (\<lambda>i. map (\<lambda>j. (glob i, glob j, loc ! (i * n + j))) [0..<n]) [0..<n])"

text \<open>
  One iteration of the loop over the cells of \<open>assemble_mech_system_2D\<close>, on the state
  \<open>(A_entries, b)\<close>. The scratch vector \<open>loc\<close> first holds the local matrix; then its first
  \<open>2 * ncf\<close> entries are set to zero and receive the body force.
\<close>

definition assemble_cell_2D :: "real list \<Rightarrow> nat list \<Rightarrow> nat list \<Rightarrow> real list \<Rightarrow> real list \<Rightarrow> real list
    \<Rightarrow> StabilityChoice \<Rightarrow> error + (triplet list \<times> real list) \<Rightarrow> nat
    \<Rightarrow> error + (triplet list \<times> real list)" where
  "assemble_cell_2D points num_cell_faces cell_corners young poisson body_force stability_choice
       st c =
     bnd st (\<lambda>Ab. case Ab of (A_entries, b) \<Rightarrow>
       (let corner_ixs = sum_list (take c num_cell_faces);
            ncf = num_cell_faces ! c;
            glob = (\<lambda>i. 2 * cell_corners ! (corner_ixs + i div 2) + i mod 2)
        in bnd (assemble_stiffness_matrix_2D points (drop corner_ixs cell_corners) ncf
                  (young ! c) (poisson ! c) stability_choice) (\<lambda>loc.
             (let A_entries' = A_entries @ local_triplets (2 * ncf) glob loc;
                  loc1 = replicate (2 * ncf) 0 @ drop (2 * ncf) loc;
                  loc2 = compute_bodyforce_2D points (drop corner_ixs cell_corners) ncf
                           (drop (2 * c) body_force) loc1;
                  b' = foldl (\<lambda>b i. b[glob i := b ! glob i + loc2 ! i]) b [0..<ncf * 2]
              in Inr (A_entries', b')))))"

text \<open>
  \<open>assemble_mech_system_2D\<close> returns its return value together with \<open>A_entries\<close> and \<open>b\<close>;
  when an exception leaves the function the result is the exception only.
\<close>

definition assemble_mech_system_2D :: "real list \<Rightarrow> nat \<Rightarrow> nat list \<Rightarrow> nat list \<Rightarrow> real list \<Rightarrow> real list
    \<Rightarrow> real list \<Rightarrow> nat \<Rightarrow> int list \<Rightarrow> real list \<Rightarrow> nat \<Rightarrow> nat list \<Rightarrow> real list
    \<Rightarrow> StabilityChoice \<Rightarrow> bool \<Rightarrow> error + (nat \<times> triplet list \<times> real list)" where
  "assemble_mech_system_2D points num_cells num_cell_faces cell_corners young poisson body_force
       num_fixed_dofs fixed_dof_ixs fixed_dof_values num_neumann_faces neumann_faces
       neumann_forces stability_choice reduce_boundary =
     (let tot_num_cell_faces = sum_list (take num_cells num_cell_faces);
          num_points = Max (set (take tot_num_cell_faces cell_corners)) + 1;
          b0 = replicate (num_points * 2) 0
      in bnd (foldl (assemble_cell_2D points num_cell_faces cell_corners young poisson body_force
                       stability_choice) (Inr ([], b0)) [0..<num_cells])
           (\<lambda>Ab. case Ab of (A_entries, b1) \<Rightarrow>
             (let b2 = foldl (\<lambda>b f.
                      (let fvals = compute_applied_forces_2D points (neumann_faces ! (2 * f))
                                     (neumann_faces ! (2 * f + 1)) (neumann_forces ! (2 * f))
                                     (neumann_forces ! (2 * f + 1));
                           n1 = neumann_faces ! (2 * f);
                           n2 = neumann_faces ! (2 * f + 1);
                           ba = b[2 * n1 := b ! (2 * n1) + fvals ! 0];
                           bb = ba[2 * n1 + 1 := ba ! (2 * n1 + 1) + fvals ! 1];
                           bc = bb[2 * n2 := bb ! (2 * n2) + fvals ! 2]
                       in bc[2 * n2 + 1 := bc ! (2 * n2 + 1) + fvals ! 3]))
                    b1 [0..<num_neumann_faces]
              in case (if reduce_boundary
                       then reduce_system A_entries b2 num_fixed_dofs fixed_dof_ixs fixed_dof_values
                       else set_boundary_conditions A_entries b2 num_fixed_dofs fixed_dof_ixs
                              fixed_dof_values) of
                   (Some e, A, b) \<Rightarrow> Inl e
                 | (None, A, b) \<Rightarrow> Inr (length b, A, b))))"

text \<open>
  One iteration of the loop over the cells of \<open>assemble_mech_system_3D\<close>; \<open>cf_ix\<close> is the
  index of the first face of the cell and \<open>fcorners_start\<close> that of its first face corner.
\<close>

definition assemble_cell_3D :: "real list \<Rightarrow> nat list \<Rightarrow> nat list \<Rightarrow> nat list \<Rightarrow> real list \<Rightarrow> real list
    \<Rightarrow> real list \<Rightarrow> StabilityChoice \<Rightarrow> error + (triplet list \<times> real list) \<Rightarrow> nat
    \<Rightarrow> error + (triplet list \<times> real list)" where
  "assemble_cell_3D points num_cell_faces num_face_corners face_corners young poisson body_force
       stability_choice st c =
     bnd st (\<lambda>Ab. case Ab of (A_entries, b) \<Rightarrow>
       (let cf_ix = sum_list (take c num_cell_faces);
            fcorners_start = sum_list (take cf_ix num_face_corners)
        in bnd (assemble_stiffness_matrix_3D points (drop fcorners_start face_corners)
                  (drop cf_ix num_face_corners) (num_cell_faces ! c) (young ! c) (poisson ! c)
                  stability_choice) (\<lambda>res. case res of (centroid, loc_indexing, loc) \<Rightarrow>
             (let ncv = length loc_indexing;
                  glob = (\<lambda>i. 3 * loc_indexing ! (i div 3) + i mod 3);
                  A_entries' = A_entries @ local_triplets (3 * ncv) glob loc;
                  b' = compute_bodyforce_3D points (drop fcorners_start face_corners)
                         (drop cf_ix num_face_corners) (num_cell_faces ! c) centroid
                         (drop (3 * c) body_force) b
              in Inr (A_entries', b')))))"

definition assemble_mech_system_3D :: "real list \<Rightarrow> nat \<Rightarrow> nat list \<Rightarrow> nat list \<Rightarrow> nat list \<Rightarrow> real list
    \<Rightarrow> real list \<Rightarrow> real list \<Rightarrow> nat \<Rightarrow> int list \<Rightarrow> real list \<Rightarrow> nat \<Rightarrow> nat list \<Rightarrow> real list
    \<Rightarrow> StabilityChoice \<Rightarrow> bool \<Rightarrow> error + (nat \<times> triplet list \<times> real list)" where
  "assemble_mech_system_3D points num_cells num_cell_faces num_face_corners face_corners young
       poisson body_force num_fixed_dofs fixed_dof_ixs fixed_dof_values num_neumann_faces
       neumann_faces neumann_forces stability_choice reduce_boundary =
     (let tot_num_cell_faces = sum_list (take num_cells num_cell_faces);
          tot_num_face_corners = sum_list (take tot_num_cell_faces num_face_corners);
          num_points = Max (set (take tot_num_face_corners face_corners)) + 1;
          b0 = replicate (num_points * 3) 0
      in bnd (foldl (assemble_cell_3D points num_cell_faces num_face_corners face_corners young
                       poisson body_force stability_choice) (Inr ([], b0)) [0..<num_cells])
           (\<lambda>Ab. case Ab of (A_entries, b1) \<Rightarrow>
             (let b2 = compute_applied_forces_3D points num_face_corners face_corners
                         num_neumann_faces neumann_faces neumann_forces b1
              in case (if reduce_boundary
                       then reduce_system A_entries b2 num_fixed_dofs fixed_dof_ixs fixed_dof_values
                       else set_boundary_conditions A_entries b2 num_fixed_dofs fixed_dof_ixs
                              fixed_dof_values) of
                   (Some e, A, b) \<Rightarrow> Inl e
                 | (None, A, b) \<Rightarrow> Inr (length b, A, b))))"

text \<open>Vocabulary of the statements: dot product and difference of 3D points.\<close>

definition dot3 :: "real list \<Rightarrow> real list \<Rightarrow> real" where
  "dot3 u v = u ! 0 * v ! 0 + u ! 1 * v ! 1 + u ! 2 * v ! 2"

definition sub3 :: "real list \<Rightarrow> real list \<Rightarrow> real list" where
  "sub3 u v = [u ! 0 - v ! 0, u ! 1 - v ! 1, u ! 2 - v ! 2]"

text \<open>
  The orientation sum in the words of the specification: the average of the face
  centroids, the vectors from this average to each face centroid, and the sum of their dot
  products with the face normals.
\<close>

definition centroid_average :: "real list \<Rightarrow> nat \<Rightarrow> real list" where
  "centroid_average face_centroids N =
     map (\<lambda>d. (\<Sum>i<N. face_centroids ! (3 * i + d)) / real N) [0..<3]"

definition orientation_sum :: "real list \<Rightarrow> real list \<Rightarrow> real" where
  "orientation_sum normals face_centroids =
     (let N = length normals div 3
      in \<Sum>i<N. dot3 (sub3 (drop (3 * i) face_centroids) (centroid_average face_centroids N))
                  (drop (3 * i) normals))"


text \<open>
  The value of a triplet list at a coordinate, in the words of the specification: the
  sum of the values of all triplets with that row and column.
\<close>

definition coo_value :: "triplet list \<Rightarrow> nat \<Rightarrow> nat \<Rightarrow> real" where
  "coo_value A i j = sum_list (map tval (filter (\<lambda>el. trow el = i \<and> tcol el = j) A))"

text \<open>
  Matrices in the words of the specification: \<open>mat A n i j\<close> is the entry in row \<open>i\<close> and
  column \<open>j\<close> of a row-major matrix with \<open>n\<close> columns; \<open>consistent_part\<close> is an entry of
  \<open>Volume * Wc * D * Wc\<^sup>t\<close> and \<open>stability_part\<close> an entry of \<open>(I - P)\<^sup>t * S * (I - P)\<close>.
\<close>

definition mat :: "real list \<Rightarrow> nat \<Rightarrow> nat \<Rightarrow> nat \<Rightarrow> real" where
  "mat A n i j = A ! (i * n + j)"

definition lsdim_of :: "nat \<Rightarrow> nat" where
  "lsdim_of dimen = (if dimen = 2 then 3 else 6)"

definition consistent_part :: "real list \<Rightarrow> real list \<Rightarrow> real \<Rightarrow> nat \<Rightarrow> nat \<Rightarrow> nat \<Rightarrow> real" where
  "consistent_part Wc D volume lsdim i j =
     volume * (\<Sum>k<lsdim. \<Sum>l<lsdim. mat Wc lsdim i k * mat D lsdim k l * mat Wc lsdim j l)"

definition stability_part :: "real list \<Rightarrow> real list \<Rightarrow> nat \<Rightarrow> nat \<Rightarrow> nat \<Rightarrow> real" where
  "stability_part ImP S totdim i j =
     (\<Sum>k<totdim. \<Sum>l<totdim. mat ImP totdim k i * mat S totdim k l * mat ImP totdim l j)"

text \<open>
  The trace of a square matrix, the diagonal entries of \<open>Nc\<^sup>t * Nc\<close>, and the diagonal
  entry of the stability matrix that each stability choice prescribes.
\<close>

definition trace_of :: "real list \<Rightarrow> nat \<Rightarrow> real" where
  "trace_of D n = (\<Sum>k<n. mat D n k k)"

definition NtN_diag :: "real list \<Rightarrow> nat \<Rightarrow> nat \<Rightarrow> nat \<Rightarrow> real" where
  "NtN_diag Nc totdim lsdim k = (\<Sum>m<totdim. mat Nc lsdim m k * mat Nc lsdim m k)"

definition stability_diag :: "StabilityChoice \<Rightarrow> real list \<Rightarrow> real list \<Rightarrow> real list \<Rightarrow> real
    \<Rightarrow> nat \<Rightarrow> nat \<Rightarrow> nat \<Rightarrow> real" where
  "stability_diag stability_choice Wc D Nc volume totdim lsdim i =
     (case stability_choice of
        SIMPLE \<Rightarrow> volume * trace_of D lsdim / (\<Sum>k<lsdim. NtN_diag Nc totdim lsdim k)
      | HARMONIC \<Rightarrow>
          (1 / 9) * volume * trace_of D lsdim * (\<Sum>k<lsdim. 1 / NtN_diag Nc totdim lsdim k)
      | D_RECIPE \<Rightarrow> max (root 3 volume) (consistent_part Wc D volume lsdim i i))"

text \<open>
  The consistency conditions of the virtual element method on the vector \<open>q\<close> of a cell
  with \<open>n\<close> corners in dimension \<open>Dim\<close>: the entries of \<open>q\<close> sum to zero in every
  coordinate, and the sum of \<open>q\<^sub>a \<otimes> x\<^sub>a\<close> over the corners is half the identity.
\<close>

definition consistent_q :: "nat \<Rightarrow> real list \<Rightarrow> nat \<Rightarrow> real list \<Rightarrow> bool" where
  "consistent_q Dim corners n q =
     ((\<forall>b<Dim. (\<Sum>a<n. q ! (Dim * a + b)) = 0)
      \<and> (\<forall>b<Dim. \<forall>c<Dim. (\<Sum>a<n. q ! (Dim * a + b) * corners ! (Dim * a + c))
             = (if b = c then 1 / 2 else 0)))"

text \<open>
  Polygons in 2D. \<open>cross2 o p q\<close> is twice the signed area of the triangle \<open>o p q\<close>,
  \<open>corner2 corners i\<close> is corner \<open>i\<close> of the flat coordinate list, and \<open>shoelace2\<close> is twice
  the signed area of the polygon. A cell is valid when it has at least three corners, is
  listed counter-clockwise with a positive area, and is star-shaped with respect to the
  centroid that the tessellation uses: every triangle (centroid, corner, next corner) is
  counter-clockwise or degenerate.
\<close>

definition cross2 :: "real list \<Rightarrow> real list \<Rightarrow> real list \<Rightarrow> real" where
  "cross2 o' p q = (p ! 0 - o' ! 0) * (q ! 1 - o' ! 1) - (p ! 1 - o' ! 1) * (q ! 0 - o' ! 0)"

definition corner2 :: "real list \<Rightarrow> nat \<Rightarrow> real list" where
  "corner2 corners i = [corners ! (2 * i), corners ! (2 * i + 1)]"

definition shoelace2 :: "real list \<Rightarrow> nat \<Rightarrow> real" where
  "shoelace2 corners n =
     (\<Sum>i<n. corners ! (2 * i) * corners ! (2 * ((i + 1) mod n) + 1)
            - corners ! (2 * ((i + 1) mod n)) * corners ! (2 * i + 1))"

definition valid_cell_2D :: "real list \<Rightarrow> nat \<Rightarrow> bool" where
  "valid_cell_2D corners n =
     (3 \<le> n \<and> 2 * n \<le> length corners \<and> 0 < shoelace2 corners n
      \<and> (\<forall>i\<in>{..<n}. 0 \<le> cross2 (centroid_2D corners n) (corner2 corners i)
                          (corner2 corners ((i + 1) mod n))))"

text \<open>
  The triangles of a tessellation: \<open>tri_area\<close> is the area of the triangle at position \<open>k\<close>,
  \<open>tri_volume\<close> the volume of the tetrahedron it spans with a point, both as the source
  computes them, and \<open>prev_tri n c\<close> is the position before \<open>2 * c\<close> in the cyclic order of
  the \<open>2 * n\<close> triangles: \<open>2 * c - 1\<close>, and \<open>2 * n - 1\<close> for \<open>c = 0\<close>.
\<close>

definition tri_area :: "nat \<Rightarrow> real list list \<Rightarrow> nat \<Rightarrow> real" where
  "tri_area Dim tris k = triarea Dim (tris ! k) (drop Dim (tris ! k)) (drop (2 * Dim) (tris ! k))"

definition tri_volume :: "real list list \<Rightarrow> real list \<Rightarrow> nat \<Rightarrow> real" where
  "tri_volume tris centroid k
     = tetrahedron_volume (tris ! k) (drop 3 (tris ! k)) (drop 6 (tris ! k)) centroid"

definition prev_tri :: "nat \<Rightarrow> nat \<Rightarrow> nat" where
  "prev_tri n c = (2 * c + 2 * n - 1) mod (2 * n)"

section \<open>Theorems\<close>

subsection \<open>Loops as sums\<close>

lemma foldl_add_sum:
  "foldl (\<lambda>s i. s + f i) a [0..<n] = a + (\<Sum>i<n. f i :: real)"
  by (induction n) (simp_all add: algebra_simps)

lemma foldl_upt_cong:
  assumes "\<And>i s. i < n \<Longrightarrow> f s i = g s i"
  shows "foldl f a [0..<n] = foldl g a [0..<n]"
proof -
  have "m \<le> n \<Longrightarrow> foldl f a [0..<m] = foldl g a [0..<m]" for m
    by (induction m) (simp_all add: assms)
  then show ?thesis by simp
qed

lemma upt3: "[0..<3] = [0, 1, 2::nat]"
  by (simp add: upt_rec)

lemma upt2: "[0..<2] = [0, 1::nat]"
  by (simp add: upt_rec)

subsection \<open>Point arithmetic\<close>

lemma length_plc [simp]: "length (plc Dim p1 p2 a b) = Dim"
  by (simp add: plc_def)

lemma nth_plc [simp]: "d < Dim \<Longrightarrow> plc Dim p1 p2 a b ! d = p1 ! d * a + p2 ! d * b"
  by (simp add: plc_def)

lemma point_average_fold:
  "Dim * n \<le> length corners \<Longrightarrow>
   foldl (\<lambda>result i. pointsum Dim result (drop (Dim * i) corners)) (replicate Dim 0) [0..<n]
     = map (\<lambda>d. \<Sum>i<n. corners ! (Dim * i + d)) [0..<Dim]"
proof (induction n)
  case 0
  show ?case by (simp add: list_eq_iff_nth_eq)
next
  case (Suc n)
  then have le: "Dim * n \<le> length corners" by simp
  show ?case
    using Suc.IH [OF le] le
    by (simp add: pointsum_def list_eq_iff_nth_eq)
qed

lemma length_point_average:
  "Dim * n \<le> length corners \<Longrightarrow> length (point_average Dim corners n) = Dim"
  by (simp add: point_average_def point_average_fold)

lemma nth_point_average:
  "Dim * n \<le> length corners \<Longrightarrow> d < Dim \<Longrightarrow>
   point_average Dim corners n ! d = (\<Sum>i<n. corners ! (Dim * i + d)) / real n"
  by (simp add: point_average_def point_average_fold)

subsection \<open>The orientation check\<close>

lemma point_average_centroid_average:
  "3 * N \<le> length fcs \<Longrightarrow> point_average 3 fcs N = centroid_average fcs N"
  by (simp add: list_eq_iff_nth_eq nth_point_average centroid_average_def length_point_average)

lemma inward_pointing_normals_iff:
  assumes "length normals \<le> length face_centroids"
  shows "inward_pointing_normals normals face_centroids
           = (orientation_sum normals face_centroids < 0)"
proof -
  let ?N = "length normals div 3"
  let ?m = "centroid_average face_centroids ?N"
  have le: "3 * ?N \<le> length face_centroids" using assms by simp
  have inner: "foldl (\<lambda>sum d. sum
         + map (\<lambda>i. map (\<lambda>d. face_centroids ! (3 * i + d) - ?m ! d) [0..<3]) [0..<?N] ! i ! d
           * normals ! (3 * i + d)) s [0..<3]
      = s + dot3 (sub3 (drop (3 * i) face_centroids) ?m) (drop (3 * i) normals)"
    if i: "i < ?N" for i s
  proof -
    from i have "3 * i + 2 < length normals" by simp
    then have "3 * i \<le> length normals" "3 * i \<le> length face_centroids" using assms by simp_all
    then show ?thesis using i by (simp add: upt3 dot3_def sub3_def)
  qed
  show ?thesis
    unfolding inward_pointing_normals_def orientation_sum_def Let_def
      point_average_centroid_average [OF le]
    by (subst foldl_upt_cong [OF inner]) (simp_all add: foldl_add_sum)
qed

lemma length_centroid_2D_3D_fold:
  "length (fst st) = 3 \<Longrightarrow>
   length (fst (foldl (centroid_2D_3D_step points n ip) st xs)) = 3"
  by (induction xs arbitrary: st) (simp_all add: centroid_2D_3D_step_def Let_def split: prod.splits)

lemma length_centroid_2D_3D: "length (centroid_2D_3D points n) = 3"
proof -
  have "length (fst (foldl (centroid_2D_3D_step points n (point_average 3 points n))
          ([0, 0, 0], 0) [0..<n])) = 3"
    by (rule length_centroid_2D_3D_fold) simp
  then show ?thesis by (auto simp add: centroid_2D_3D_def Let_def split: prod.splits)
qed

lemma length_compute_face_geometry:
  "length (fst (compute_face_geometry pts)) = 3" "length (snd (compute_face_geometry pts)) = 3"
  by (simp_all add: compute_face_geometry_def Let_def face_centroid_def length_centroid_2D_3D)

lemma length_concat_const:
  "(\<And>x. x \<in> set xs \<Longrightarrow> length (f x) = k) \<Longrightarrow> length (concat (map f xs)) = k * length xs"
  by (induction xs) simp_all

lemma length_cell_face_geometry:
  "length (fst (cell_face_geometry points faces nfe nf)) = 3 * nf"
  "length (snd (cell_face_geometry points faces nfe nf)) = 3 * nf"
  by (simp_all add: cell_face_geometry_def Let_def length_concat_const
        length_compute_face_geometry)

lemma identify_star_point_error:
  "identify_star_point point fn fc = Inl e \<Longrightarrow> e = runtime_error"
  by (auto simp add: identify_star_point_def Let_def split: prod.splits if_splits)

subsection \<open>The star point loop\<close>

lemma fst_star_step:
  "fst (star_step N fn fc i count result)
     = (if is_behind_face result (drop (3 * (i mod N)) fn) (drop (3 * (i mod N)) fc)
        then Suc count else Suc 0)"
  by (simp add: star_step_def Let_def)



lemma star_loop_numeral:
  "star_loop N fn fc (numeral k) i count result checks =
     (let f_ix = i mod N;
          behind = is_behind_face result (drop (3 * f_ix) fn) (drop (3 * f_ix) fc);
          st = star_step N fn fc i count result
      in if fst st = N then (fst st, snd st, checks @ [behind])
         else star_loop N fn fc (pred_numeral k) (Suc i) (fst st) (snd st) (checks @ [behind]))"
  by (simp add: numeral_eq_Suc)






lemma sum_lessThan_2: "(\<Sum>i<(2::nat). f i) = (f 0 + f 1 :: real)"
  by (simp add: numeral_2_eq_2)

lemma orientation_sum_two_faces:
  "orientation_sum [n0, n1, n2, n3, n4, n5] [c0, c1, c2, c3, c4, c5]
     = (c0 - (c0 + c3) / 2) * n0 + (c1 - (c1 + c4) / 2) * n1 + (c2 - (c2 + c5) / 2) * n2
       + ((c3 - (c0 + c3) / 2) * n3 + (c4 - (c1 + c4) / 2) * n4 + (c5 - (c2 + c5) / 2) * n5)"
  by (simp add: orientation_sum_def centroid_average_def dot3_def sub3_def upt3 sum_lessThan_2)

subsection \<open>Dense matrices\<close>

lemma index_less: "r < R \<Longrightarrow> c < C \<Longrightarrow> r * C + c < R * (C::nat)"
proof -
  assume a: "r < R" "c < C"
  then have "r * C + c < r * C + C" by simp
  also have "\<dots> = Suc r * C" by simp
  also have "\<dots> \<le> R * C" using a(1) by (intro mult_le_mono1) simp
  finally show ?thesis .
qed

lemma length_concat_map_upt:
  "length (concat (map (\<lambda>r. map (f r) [0..<C]) [0..<R])) = R * C"
  by (induction R) simp_all

lemma nth_concat_map_upt:
  "r < R \<Longrightarrow> c < C \<Longrightarrow> concat (map (\<lambda>r. map (f r) [0..<C]) [0..<R]) ! (r * C + c) = f r c"
proof (induction R)
  case 0
  then show ?case by simp
next
  case (Suc R)
  note len = length_concat_map_upt [of f C R]
  show ?case
  proof (cases "r < R")
    case True
    then have "r * C + c < R * C" using Suc.prems(2) by (rule index_less)
    then show ?thesis using Suc.IH [OF True Suc.prems(2)] len by (simp add: nth_append)
  next
    case False
    then have "r = R" using Suc.prems(1) by simp
    then show ?thesis using len Suc.prems(2) by (simp add: nth_append)
  qed
qed

lemma foldl_mult_sum:
  "foldl (\<lambda>acc k. acc + f k) 0 [0..<n] = (\<Sum>k<n. f k :: real)"
  using foldl_add_sum [of f 0 n] by simp

lemma matmul_raw:
  assumes "(if t1 then r1 else c1) = (if t2 then c2 else r2)"
  shows "matmul d1 r1 c1 t1 d2 r2 c2 t2 fac =
    Inr ((if fac \<noteq> 1 then map (\<lambda>e. e * fac) else (\<lambda>x. x))
      (concat (map (\<lambda>r. map (\<lambda>c. (\<Sum>k < (if t1 then r1 else c1).
                d1 ! (if t1 then r + k * c1 else r * c1 + k)
                * d2 ! (if t2 then k + c * c2 else k * c2 + c)))
           [0..<(if t2 then r2 else c2)]) [0..<(if t1 then c1 else r1)])))"
  using assms by (cases t1; cases t2; simp add: matmul_def Let_def foldl_mult_sum)

lemma matmul_Inr:
  assumes "(if t1 then r1 else c1) = (if t2 then c2 else r2)"
  shows "\<exists>res. matmul d1 r1 c1 t1 d2 r2 c2 t2 fac = Inr res
    \<and> length res = (if t1 then c1 else r1) * (if t2 then r2 else c2)
    \<and> (\<forall>r < (if t1 then c1 else r1). \<forall>c < (if t2 then r2 else c2).
          res ! (r * (if t2 then r2 else c2) + c)
            = fac * (\<Sum>k < (if t1 then r1 else c1).
                d1 ! (if t1 then r + k * c1 else r * c1 + k)
                * d2 ! (if t2 then k + c * c2 else k * c2 + c)))"
proof -
  let ?R = "if t1 then c1 else r1" and ?C = "if t2 then r2 else c2" and ?K = "if t1 then r1 else c1"
  let ?f = "\<lambda>r c. (\<Sum>k < ?K. d1 ! (if t1 then r + k * c1 else r * c1 + k)
                * d2 ! (if t2 then k + c * c2 else k * c2 + c))"
  let ?raw = "concat (map (\<lambda>r. map (?f r) [0..<?C]) [0..<?R])"
  note m = matmul_raw [OF assms, of d1 d2 fac]
  have len: "length ?raw = ?R * ?C" by (rule length_concat_map_upt)
  have nth: "?raw ! (r * ?C + c) = ?f r c" if "r < ?R" "c < ?C" for r c
    using that by (rule nth_concat_map_upt)
  show ?thesis
  proof (cases "fac = 1")
    case True
    show ?thesis
      unfolding m using True len nth by simp
  next
    case False
    have "map (\<lambda>e. e * fac) ?raw ! (r * ?C + c) = fac * ?f r c" if "r < ?R" "c < ?C" for r c
    proof -
      have "r * ?C + c < length ?raw" unfolding len using that by (rule index_less)
      then have "map (\<lambda>e. e * fac) ?raw ! (r * ?C + c) = ?raw ! (r * ?C + c) * fac"
        by (rule nth_map)
      then show ?thesis using nth [OF that] by simp
    qed
    then show ?thesis
      unfolding m using False len by simp
  qed
qed

lemma takeWhile_snoc_not: "\<not> P x \<Longrightarrow> takeWhile P (xs @ [x]) = takeWhile P xs"
  by (induction xs) simp_all

lemma takeWhile_less_upt: "takeWhile (\<lambda>k. k < m) [0..<n] = [0..<min m n]"
proof (induction n)
  case 0
  show ?case by simp
next
  case (Suc n)
  show ?case
  proof (cases "n < m")
    case True
    have "takeWhile (\<lambda>k. k < m) [0..<Suc n] = [0..<Suc n]"
      unfolding takeWhile_eq_all_conv using True by auto
    moreover have "min m (Suc n) = Suc n" using True by simp
    ultimately show ?thesis by simp
  next
    case False
    then have "min m (Suc n) = min m n" by (simp add: min_def)
    moreover have "takeWhile (\<lambda>k. k < m) ([0..<n] @ [n]) = takeWhile (\<lambda>k. k < m) [0..<n]"
      using False by (rule takeWhile_snoc_not)
    ultimately show ?thesis using Suc by simp
  qed
qed

lemma floor_sqrt_square: "floor_sqrt (m * m) = m"
proof -
  have "(Suc k * Suc k \<le> m * m) = (k < m)" for k
    using power2_nat_le_eq_le [of "Suc k" m] by (simp add: power2_eq_square Suc_le_eq)
  moreover have "min m (m * m) = m" by (cases m) simp_all
  ultimately show ?thesis by (simp add: floor_sqrt_def takeWhile_less_upt)
qed

lemma diag_index_eq:
  fixes a b i N :: nat
  assumes "a < N" "b < N" "i < N"
  shows "(i + N * i = a * N + b) = (a = i \<and> b = i)"
proof
  assume e: "i + N * i = a * N + b"
  then have "(i * N + i) div N = (a * N + b) div N" "(i * N + i) mod N = (a * N + b) mod N"
    by (simp_all add: mult.commute add.commute)
  then show "a = i \<and> b = i" using assms by simp
next
  assume "a = i \<and> b = i"
  then show "i + N * i = a * N + b" by (simp add: mult.commute)
qed

lemma diag_fold:
  "M \<le> N \<Longrightarrow>
   length (foldl (\<lambda>result i. result[i + N * i := g i]) init [0..<M]) = length init
   \<and> (\<forall>a<N. \<forall>b<N. length init = N * N \<longrightarrow>
         foldl (\<lambda>result i. result[i + N * i := g i]) init [0..<M] ! (a * N + b)
           = (if a = b \<and> a < M then g a else init ! (a * N + b)))"
proof (induction M)
  case 0
  show ?case by simp
next
  case (Suc M)
  then have IH: "length (foldl (\<lambda>result i. result[i + N * i := g i]) init [0..<M]) = length init"
    "\<And>a b. a < N \<Longrightarrow> b < N \<Longrightarrow> length init = N * N \<Longrightarrow>
         foldl (\<lambda>result i. result[i + N * i := g i]) init [0..<M] ! (a * N + b)
           = (if a = b \<and> a < M then g a else init ! (a * N + b))"
    by simp_all
  have M: "M < N" using Suc.prems by simp
  show ?case
  proof (intro conjI allI impI)
    show "length (foldl (\<lambda>result i. result[i + N * i := g i]) init [0..<Suc M]) = length init"
      using IH(1) by simp
  next
    fix a b assume ab: "a < N" "b < N" and len: "length init = N * N"
    have lt: "a * N + b < N * N" using ab index_less by simp
    show "foldl (\<lambda>result i. result[i + N * i := g i]) init [0..<Suc M] ! (a * N + b)
           = (if a = b \<and> a < Suc M then g a else init ! (a * N + b))"
    proof (cases "a = M \<and> b = M")
      case True
      then show ?thesis using IH(1) len lt by (simp add: mult.commute add.commute)
    next
      case False
      then have ne: "M + N * M \<noteq> a * N + b" using diag_index_eq [OF ab M] by simp
      have "foldl (\<lambda>result i. result[i + N * i := g i]) init [0..<Suc M] ! (a * N + b)
          = foldl (\<lambda>result i. result[i + N * i := g i]) init [0..<M] ! (a * N + b)"
        using ne by simp
      also have "\<dots> = (if a = b \<and> a < M then g a else init ! (a * N + b))"
        using IH(2) [OF ab len] .
      also have "\<dots> = (if a = b \<and> a < Suc M then g a else init ! (a * N + b))"
        using False by (auto simp add: less_Suc_eq)
      finally show ?thesis .
    qed
  qed
qed

lemma identity_matrix_props:
  "length (identity_matrix fac N) = N * N"
  "a < N \<Longrightarrow> b < N \<Longrightarrow> identity_matrix fac N ! (a * N + b) = (if a = b then fac else 0)"
proof -
  note d = diag_fold [of N N "\<lambda>_. fac" "replicate (N * N) 0", simplified]
  show "length (identity_matrix fac N) = N * N" using d by (simp add: identity_matrix_def)
  assume ab: "a < N" "b < N"
  then have "a * N + b < N * N" by (rule index_less)
  then show "identity_matrix fac N ! (a * N + b) = (if a = b then fac else 0)"
    using d ab by (simp add: identity_matrix_def)
qed

lemma compute_S_D_recipe_props:
  "length (compute_S_D_recipe E dofs volume) = dofs * dofs"
  "a < dofs \<Longrightarrow> b < dofs \<Longrightarrow> compute_S_D_recipe E dofs volume ! (a * dofs + b)
     = (if a = b then max (root 3 volume) (E ! (a * dofs + a)) else 0)"
proof -
  note d = diag_fold [of dofs dofs "\<lambda>i. max (root 3 volume) (E ! (i + dofs * i))"
      "replicate (dofs * dofs) 0", simplified]
  show "length (compute_S_D_recipe E dofs volume) = dofs * dofs"
    using d by (simp add: compute_S_D_recipe_def)
  assume ab: "a < dofs" "b < dofs"
  then have "a * dofs + b < dofs * dofs" by (rule index_less)
  then show "compute_S_D_recipe E dofs volume ! (a * dofs + b)
     = (if a = b then max (root 3 volume) (E ! (a * dofs + a)) else 0)"
    using d ab by (simp add: compute_S_D_recipe_def mult.commute add.commute)
qed

lemma trace_square:
  "length A = n * n \<Longrightarrow> trace A = Inr (trace_of A n)"
  by (simp add: trace_def Let_def floor_sqrt_square bnd_def check_def trace_of_def mat_def
        foldl_mult_sum mult.commute add.commute)

lemma invtrace_square:
  "length A = n * n \<Longrightarrow> invtrace A = (\<Sum>k<n. 1 / mat A n k k)"
proof -
  assume len: "length A = n * n"
  have "foldl (\<lambda>result i. result + 1 / map (\<lambda>i. A ! (i * n + i)) [0..<n] ! i) 0 [0..<n]
      = foldl (\<lambda>result i. result + 1 / A ! (i * n + i)) 0 [0..<n]"
    by (rule foldl_upt_cong) simp
  then show ?thesis
    using len by (simp add: invtrace_def diag_elems_def Let_def floor_sqrt_square mat_def foldl_mult_sum)
qed

lemma final_assembly_EWcDWct_props:
  assumes "dimen = 2 \<or> dimen = 3"
  shows "\<exists>E. final_assembly_EWcDWct Wc D volume num_nodes dimen = Inr E
    \<and> length E = (dimen * num_nodes) * (dimen * num_nodes)
    \<and> (\<forall>i < dimen * num_nodes. \<forall>j < dimen * num_nodes.
          E ! (i * (dimen * num_nodes) + j) = consistent_part Wc D volume (lsdim_of dimen) i j)"
proof -
  let ?ls = "lsdim_of dimen" and ?td = "dimen * num_nodes"
  from matmul_Inr [of False ?ls ?ls True ?ls ?td D Wc 1]
  obtain DWct where DWct: "matmul D ?ls ?ls False Wc ?td ?ls True 1 = Inr DWct"
    "\<And>k j. k < ?ls \<Longrightarrow> j < ?td \<Longrightarrow>
        DWct ! (k * ?td + j) = (\<Sum>l < ?ls. D ! (k * ?ls + l) * Wc ! (l + j * ?ls))"
    by auto
  from matmul_Inr [of False ?td ?ls False ?td ?ls Wc DWct volume]
  obtain E where E: "matmul Wc ?td ?ls False DWct ?ls ?td False volume = Inr E"
    "length E = ?td * ?td"
    "\<And>i j. i < ?td \<Longrightarrow> j < ?td \<Longrightarrow>
        E ! (i * ?td + j) = volume * (\<Sum>k < ?ls. Wc ! (i * ?ls + k) * DWct ! (k * ?td + j))"
    by auto
  have "E ! (i * ?td + j) = consistent_part Wc D volume ?ls i j" if "i < ?td" "j < ?td" for i j
  proof -
    have "(\<Sum>k < ?ls. Wc ! (i * ?ls + k) * DWct ! (k * ?td + j))
        = (\<Sum>k < ?ls. \<Sum>l < ?ls. Wc ! (i * ?ls + k) * D ! (k * ?ls + l) * Wc ! (j * ?ls + l))"
    proof (intro sum.cong refl)
      fix k assume "k \<in> {..<?ls}"
      then have k: "k < ?ls" by simp
      show "Wc ! (i * ?ls + k) * DWct ! (k * ?td + j)
          = (\<Sum>l < ?ls. Wc ! (i * ?ls + k) * D ! (k * ?ls + l) * Wc ! (j * ?ls + l))"
        unfolding DWct(2) [OF k that(2)]
        by (simp add: sum_distrib_left mult.assoc add.commute)
    qed
    then show ?thesis using E(3) [OF that] by (simp add: consistent_part_def mat_def)
  qed
  then show ?thesis
    using assms DWct(1) E(1,2)
    by (auto simp add: final_assembly_EWcDWct_def bnd_def check_def Let_def lsdim_of_def)
qed

lemma compute_S_props:
  assumes "dimen = 2 \<or> dimen = 3" "stability_choice \<noteq> D_RECIPE"
    "length D = lsdim_of dimen * lsdim_of dimen"
  shows "compute_S Nc D num_nodes volume dimen stability_choice
    = Inr (identity_matrix
        (stability_diag stability_choice Wc D Nc volume (dimen * num_nodes) (lsdim_of dimen) i)
        (dimen * num_nodes))"
proof -
  let ?ls = "lsdim_of dimen" and ?td = "dimen * num_nodes"
  from matmul_Inr [of True ?td ?ls False ?ls ?td Nc Nc 1]
  obtain NtN where NtN: "matmul Nc ?td ?ls True Nc ?td ?ls False 1 = Inr NtN"
    "length NtN = ?ls * ?ls"
    "\<And>a b. a < ?ls \<Longrightarrow> b < ?ls \<Longrightarrow>
        NtN ! (a * ?ls + b) = (\<Sum>m < ?td. Nc ! (a + m * ?ls) * Nc ! (m * ?ls + b))"
    by auto
  have diag: "mat NtN ?ls k k = NtN_diag Nc ?td ?ls k" if "k < ?ls" for k
    using NtN(3) [OF that that] by (simp add: mat_def NtN_diag_def add.commute)
  have tN: "trace NtN = Inr (\<Sum>k < ?ls. NtN_diag Nc ?td ?ls k)"
    using trace_square [OF NtN(2)] diag by (simp add: trace_of_def)
  have iN: "invtrace NtN = (\<Sum>k < ?ls. 1 / NtN_diag Nc ?td ?ls k)"
    using invtrace_square [OF NtN(2)] diag by simp
  have tD: "trace D = Inr (trace_of D ?ls)" using assms(3) by (rule trace_square)
  have c: "(if dimen = 2 then 3 else 6) = ?ls" by (simp add: lsdim_of_def)
  show ?thesis
  proof (cases stability_choice)
    case SIMPLE
    then show ?thesis
      using assms(1) NtN(1) tN tD
      by (simp add: compute_S_def bnd_def check_def Let_def c stability_diag_def)
  next
    case HARMONIC
    then show ?thesis
      using assms(1) NtN(1) iN tD
      by (simp add: compute_S_def bnd_def check_def Let_def c stability_diag_def)
  next
    case D_RECIPE
    then show ?thesis using assms(2) by simp
  qed
qed

lemma final_assembly_S_props:
  assumes "dimen = 2 \<or> dimen = 3" "length D = lsdim_of dimen * lsdim_of dimen"
  shows "\<exists>S. final_assembly_S Wc D Nc stability_choice volume num_nodes dimen = Inr S
    \<and> length S = (dimen * num_nodes) * (dimen * num_nodes)
    \<and> (\<forall>i < dimen * num_nodes. \<forall>j < dimen * num_nodes.
          mat S (dimen * num_nodes) i j
            = (if i = j
               then stability_diag stability_choice Wc D Nc volume (dimen * num_nodes)
                      (lsdim_of dimen) i
               else 0))"
proof -
  let ?ls = "lsdim_of dimen" and ?td = "dimen * num_nodes"
  from final_assembly_EWcDWct_props [OF assms(1), of Wc D volume num_nodes]
  obtain E where E: "final_assembly_EWcDWct Wc D volume num_nodes dimen = Inr E"
    "\<And>i j. i < ?td \<Longrightarrow> j < ?td \<Longrightarrow> E ! (i * ?td + j) = consistent_part Wc D volume ?ls i j"
    by auto
  show ?thesis
  proof (cases "stability_choice = D_RECIPE")
    case True
    then have S: "final_assembly_S Wc D Nc stability_choice volume num_nodes dimen
        = Inr (compute_S_D_recipe E ?td volume)"
      using E(1) by (simp add: final_assembly_S_def bnd_def)
    show ?thesis
      unfolding S using True E(2)
      by (simp add: compute_S_D_recipe_props mat_def stability_diag_def)
  next
    case False
    have S: "final_assembly_S Wc D Nc stability_choice volume num_nodes dimen
        = Inr (identity_matrix (stability_diag stability_choice Wc D Nc volume ?td ?ls 0) ?td)"
      using E(1) False compute_S_props [OF assms(1) False assms(2), of Nc num_nodes volume Wc 0]
      by (simp add: final_assembly_S_def bnd_def)
    have indep: "stability_diag stability_choice Wc D Nc volume ?td ?ls i
        = stability_diag stability_choice Wc D Nc volume ?td ?ls 0" for i
      using False by (cases stability_choice) (simp_all add: stability_diag_def)
    have "mat (identity_matrix (stability_diag stability_choice Wc D Nc volume ?td ?ls 0) ?td) ?td i j
        = (if i = j then stability_diag stability_choice Wc D Nc volume ?td ?ls i else 0)"
      if "i < ?td" "j < ?td" for i j
      using that indep [of i] indep [of j] by (auto simp add: identity_matrix_props mat_def)
    then show ?thesis
      unfolding S by (simp add: identity_matrix_props)
  qed
qed

lemma final_assembly_props:
  assumes "dimen = 2 \<or> dimen = 3" "length D = lsdim_of dimen * lsdim_of dimen"
  shows "\<exists>T S. final_assembly Wc D Nc ImP stability_choice volume num_nodes dimen = Inr T
    \<and> final_assembly_S Wc D Nc stability_choice volume num_nodes dimen = Inr S
    \<and> length T = (dimen * num_nodes) * (dimen * num_nodes)
    \<and> (\<forall>i < dimen * num_nodes. \<forall>j < dimen * num_nodes.
          mat T (dimen * num_nodes) i j
            = consistent_part Wc D volume (lsdim_of dimen) i j
              + stability_part ImP S (dimen * num_nodes) i j)"
proof -
  let ?ls = "lsdim_of dimen" and ?td = "dimen * num_nodes"
  from final_assembly_EWcDWct_props [OF assms(1), of Wc D volume num_nodes]
  obtain E where E: "final_assembly_EWcDWct Wc D volume num_nodes dimen = Inr E"
    "length E = ?td * ?td"
    "\<And>i j. i < ?td \<Longrightarrow> j < ?td \<Longrightarrow> E ! (i * ?td + j) = consistent_part Wc D volume ?ls i j"
    by auto
  from final_assembly_S_props [OF assms, of Wc Nc stability_choice volume num_nodes]
  obtain S where S: "final_assembly_S Wc D Nc stability_choice volume num_nodes dimen = Inr S"
    by auto
  from matmul_Inr [of False ?td ?td False ?td ?td S ImP 1]
  obtain SImP where SImP: "matmul S ?td ?td False ImP ?td ?td False 1 = Inr SImP"
    "\<And>k j. k < ?td \<Longrightarrow> j < ?td \<Longrightarrow>
        SImP ! (k * ?td + j) = (\<Sum>l < ?td. S ! (k * ?td + l) * ImP ! (l * ?td + j))"
    by auto
  from matmul_Inr [of True ?td ?td False ?td ?td ImP SImP 1]
  obtain Q where Q: "matmul ImP ?td ?td True SImP ?td ?td False 1 = Inr Q"
    "length Q = ?td * ?td"
    "\<And>i j. i < ?td \<Longrightarrow> j < ?td \<Longrightarrow>
        Q ! (i * ?td + j) = (\<Sum>k < ?td. ImP ! (i + k * ?td) * SImP ! (k * ?td + j))"
    by auto
  have T: "final_assembly Wc D Nc ImP stability_choice volume num_nodes dimen
      = Inr (map2 (+) E Q)"
    using E(1,2) S SImP(1) Q(1,2)
    by (simp add: final_assembly_def bnd_def check_def Let_def)
  have "mat (map2 (+) E Q) ?td i j
      = consistent_part Wc D volume ?ls i j + stability_part ImP S ?td i j"
    if ij: "i < ?td" "j < ?td" for i j
  proof -
    have lt: "i * ?td + j < ?td * ?td" using ij by (rule index_less)
    have "Q ! (i * ?td + j)
        = (\<Sum>k < ?td. \<Sum>l < ?td. ImP ! (k * ?td + i) * S ! (k * ?td + l) * ImP ! (l * ?td + j))"
      unfolding Q(3) [OF ij]
    proof (intro sum.cong refl)
      fix k assume "k \<in> {..<?td}"
      then have k: "k < ?td" by simp
      show "ImP ! (i + k * ?td) * SImP ! (k * ?td + j)
          = (\<Sum>l < ?td. ImP ! (k * ?td + i) * S ! (k * ?td + l) * ImP ! (l * ?td + j))"
        unfolding SImP(2) [OF k ij(2)]
        by (simp add: sum_distrib_left mult.assoc add.commute)
    qed
    then show ?thesis
      using lt E(2) Q(2) E(3) [OF ij] by (simp add: mat_def stability_part_def)
  qed
  then show ?thesis using T S E(2) Q(2) by simp
qed

subsection \<open>Boundary conditions\<close>

lemma length_move_entries:
  "length (snd (foldl (move_entry zero v) (A, b) ks)) = length b"
proof (induction ks arbitrary: A b)
  case Nil
  show ?case by simp
next
  case (Cons k ks)
  obtain A' b' where s: "move_entry zero v (A, b) k = (A', b')" by (cases "move_entry zero v (A, b) k")
  then have "length b' = length b" by (auto simp add: move_entry_def Let_def)
  then show ?case using Cons [of A' b'] s by simp
qed

lemma length_move_column:
  "move_column zero ixs vals (A, b, ce) i = (A', b', ce') \<Longrightarrow> length b' = length b"
  by (auto simp add: move_column_def Let_def length_move_entries split: if_splits)

lemma length_move_columns_fold:
  "foldl (move_column zero ixs vals) (A, b, ce) is = (A', b', ce') \<Longrightarrow> length b' = length b"
proof (induction "is" arbitrary: A b ce)
  case Nil
  then show ?case by simp
next
  case (Cons i "is")
  obtain A1 b1 ce1 where s: "move_column zero ixs vals (A, b, ce) i = (A1, b1, ce1)"
    by (cases "move_column zero ixs vals (A, b, ce) i")
  then have "length b1 = length b" by (rule length_move_column)
  then show ?case using Cons.IH [of A1 b1 ce1] Cons.prems s by simp
qed

lemma length_move_columns:
  "move_columns zero n ixs vals A b = (A', b') \<Longrightarrow> length b' = length b"
  by (auto simp add: move_columns_def split: prod.splits dest: length_move_columns_fold)

lemma length_foldl_update:
  "length (foldl (\<lambda>b i. b[f i := g b i]) b xs) = length b"
  by (induction xs arbitrary: b) simp_all

lemma set_boundary_conditions_length:
  assumes "sorted (take n ixs)"
  shows "\<exists>A' b'. set_boundary_conditions A b n ixs vals = (None, A', b') \<and> length b' = length b"
proof -
  obtain A1 b1 where m: "move_columns True n ixs vals (sort_by_column A) b = (A1, b1)"
    by (cases "move_columns True n ixs vals (sort_by_column A) b")
  then have "length b1 = length b" by (rule length_move_columns)
  then show ?thesis using assms m
    by (simp add: set_boundary_conditions_def Let_def length_foldl_update)
qed

lemma set_difference_filter:
  "sorted xs \<Longrightarrow> distinct xs \<Longrightarrow> sorted ys \<Longrightarrow>
   set_difference xs ys = filter (\<lambda>x. x \<notin> set ys) xs"
proof (induction xs ys rule: set_difference.induct)
  case (1 ys)
  show ?case by simp
next
  case (2 x xs)
  show ?case by simp
next
  case (3 x xs y ys)
  show ?case
  proof (cases "x < y")
    case True
    then have "x \<notin> set (y # ys)" using "3.prems"(3) by auto
    then show ?thesis using True 3 by simp
  next
    case nlt: False
    show ?thesis
    proof (cases "y < x")
      case True
      have "\<forall>z \<in> set (x # xs). y < z" using True "3.prems"(1) by auto
      then have "filter (\<lambda>z. z \<notin> set (y # ys)) (x # xs) = filter (\<lambda>z. z \<notin> set ys) (x # xs)"
        by (intro filter_cong refl) auto
      then show ?thesis using True nlt 3 by simp
    next
      case False
      then have e: "x = y" using nlt by simp
      have "\<forall>z \<in> set xs. y < z" using e "3.prems"(1,2) by (auto simp add: less_le)
      then have "filter (\<lambda>z. z \<notin> set (y # ys)) xs = filter (\<lambda>z. z \<notin> set ys) xs"
        by (intro filter_cong refl) auto
      then show ?thesis using e 3 by simp
    qed
  qed
qed

lemma compute_renum_filter:
  "sorted (take n ixs) \<Longrightarrow>
   compute_renum bsize n ixs = filter (\<lambda>x. x \<notin> set (take n ixs)) (map int [0..<bsize])"
  unfolding compute_renum_def
  by (rule set_difference_filter) (simp_all add: sorted_map distinct_map inj_on_def)

lemma length_compute_renum:
  assumes "sorted (take n ixs)" "distinct (take n ixs)" "n \<le> length ixs"
    "\<forall>d \<in> set (take n ixs). 0 \<le> d \<and> d < int bsize"
  shows "length (compute_renum bsize n ixs) = bsize - n"
proof -
  let ?F = "set (take n ixs)"
  have sub: "?F \<subseteq> set (map int [0..<bsize])"
  proof
    fix d assume d: "d \<in> ?F"
    then have "0 \<le> d" "d < int bsize" using assms(4) by auto
    then have "nat d \<in> set [0..<bsize]" "d = int (nat d)" by auto
    then show "d \<in> set (map int [0..<bsize])" by (metis image_eqI set_map)
  qed
  have dist: "distinct (map int [0..<bsize])" by (simp add: distinct_map inj_on_def)
  have "length (filter (\<lambda>x. x \<in> ?F) (map int [0..<bsize])) = card ?F"
  proof -
    have "set (filter (\<lambda>x. x \<in> ?F) (map int [0..<bsize])) = ?F" using sub by auto
    moreover have "distinct (filter (\<lambda>x. x \<in> ?F) (map int [0..<bsize]))" using dist by simp
    ultimately show ?thesis by (metis distinct_card)
  qed
  also have "card ?F = n" using assms(2,3) by (simp add: distinct_card)
  finally have in_len: "length (filter (\<lambda>x. x \<in> ?F) (map int [0..<bsize])) = n" .
  have "length (filter (\<lambda>x. x \<in> ?F) (map int [0..<bsize]))
      + length (filter (\<lambda>x. x \<notin> ?F) (map int [0..<bsize])) = length (map int [0..<bsize])"
    by (rule sum_length_filter_compl)
  then show ?thesis using in_len by (simp add: compute_renum_filter [OF assms(1)])
qed

lemma reduce_system_length:
  assumes "sorted (take n ixs)"
  shows "\<exists>A' b'. reduce_system A b n ixs vals = (None, A', b')
     \<and> length b' = length (compute_renum (length b) n ixs)"
proof -
  obtain A1 b1 where m: "move_columns False n ixs vals (sort_by_column A) b = (A1, b1)"
    by (cases "move_columns False n ixs vals (sort_by_column A) b")
  then have len: "length b1 = length b" by (rule length_move_columns)
  have "length (compute_renum (length b) n ixs) \<le> length b"
    using assms by (simp add: compute_renum_filter) (metis length_filter_le length_map length_upt diff_zero)
  then show ?thesis using assms m len
    by (simp add: reduce_system_def Let_def length_foldl_update)
qed

subsection \<open>Local stiffness matrices\<close>

lemma length_foldl_inv:
  assumes "\<And>s x. length (f s x) = length s"
  shows "length (foldl f s xs) = length s"
  by (induction xs arbitrary: s) (simp_all add: assms)

lemma length_compute_q_2D: "length (compute_q_2D corners n) = n * 2"
  unfolding compute_q_2D_def Let_def
  by (subst length_foldl_inv) (simp_all add: length_foldl_inv)

lemma length_concat_map_const:
  "(\<And>i. length (f i) = k) \<Longrightarrow> length (concat (map f [0..<n])) = k * n"
  by (induction n) simp_all

lemma length_compute_Nr_2D: "length (compute_Nr_2D corners n) = 6 * n"
  by (simp add: compute_Nr_2D_def Let_def length_concat_map_const matentry_2D_def)

lemma length_compute_Nc_2D: "length (compute_Nc_2D corners n) = 6 * n"
  by (simp add: compute_Nc_2D_def Let_def length_concat_map_const matentry_2D_def)

lemma length_compute_Nr_3D: "length (compute_Nr_3D corners n) = 18 * n"
  by (simp add: compute_Nr_3D_def Let_def length_concat_map_const matentry_3D_def)

lemma length_compute_Nc_3D: "length (compute_Nc_3D corners n) = 18 * n"
  by (simp add: compute_Nc_3D_def Let_def length_concat_map_const matentry_3D_def)

lemma compute_Wr_2D_Inr:
  "length q = n * 2 \<Longrightarrow> \<exists>W. compute_Wr_2D q = Inr W \<and> length W = 6 * n"
  by (simp add: compute_Wr_2D_def Let_def bnd_def check_def length_concat_map_const matentry_2D_def)

lemma compute_Wc_2D_Inr:
  "length q = n * 2 \<Longrightarrow> \<exists>W. compute_Wc_2D q = Inr W \<and> length W = 6 * n"
  by (simp add: compute_Wc_2D_def Let_def bnd_def check_def length_concat_map_const matentry_2D_def)

lemma compute_Wr_3D_Inr:
  "length q = n * 3 \<Longrightarrow> \<exists>W. compute_Wr_3D q = Inr W \<and> length W = 18 * n"
  by (simp add: compute_Wr_3D_def Let_def bnd_def check_def length_concat_map_const matentry_3D_def)

lemma compute_Wc_3D_Inr:
  "length q = n * 3 \<Longrightarrow> \<exists>W. compute_Wc_3D q = Inr W \<and> length W = 18 * n"
  by (simp add: compute_Wc_3D_def Let_def bnd_def check_def length_concat_map_const matentry_3D_def)

lemma length_compute_D: "length (compute_D_2D young poisson) = 9" "length (compute_D_3D young poisson) = 36"
  by (simp_all add: compute_D_2D_def compute_D_3D_def Let_def)

lemma compute_ImP_Inr:
  assumes "dimen = 2 \<or> dimen = 3" "length Nc = (if dimen = 2 then 6 else 18) * n"
  shows "\<exists>ImP. compute_ImP Nr Nc Wr Wc dimen = Inr ImP
    \<and> length ImP = (dimen * n) * (dimen * n)
    \<and> (\<forall>i < dimen * n. \<forall>j < dimen * n.
          mat ImP (dimen * n) i j
            = (if i = j then 1 else 0)
              - ((\<Sum>k < lsdim_of dimen. mat Nr (lsdim_of dimen) i k * mat Wr (lsdim_of dimen) j k)
                 + (\<Sum>k < lsdim_of dimen. mat Nc (lsdim_of dimen) i k * mat Wc (lsdim_of dimen) j k)))"
proof -
  let ?ls = "lsdim_of dimen" and ?td = "dimen * n"
  have N: "(if dimen = 2 then length Nc div 6 else length Nc div 18) = n"
    using assms by auto
  have c: "(if dimen = 2 then 3 else 6) = ?ls" by (simp add: lsdim_of_def)
  from matmul_Inr [of False ?td ?ls True ?ls ?td Nr Wr 1]
  obtain Pr where Pr: "matmul Nr ?td ?ls False Wr ?td ?ls True 1 = Inr Pr"
    "length Pr = ?td * ?td"
    "\<And>i j. i < ?td \<Longrightarrow> j < ?td \<Longrightarrow>
        Pr ! (i * ?td + j) = (\<Sum>k < ?ls. Nr ! (i * ?ls + k) * Wr ! (k + j * ?ls))"
    by auto
  from matmul_Inr [of False ?td ?ls True ?ls ?td Nc Wc 1]
  obtain Pc where Pc: "matmul Nc ?td ?ls False Wc ?td ?ls True 1 = Inr Pc"
    "length Pc = ?td * ?td"
    "\<And>i j. i < ?td \<Longrightarrow> j < ?td \<Longrightarrow>
        Pc ! (i * ?td + j) = (\<Sum>k < ?ls. Nc ! (i * ?ls + k) * Wc ! (k + j * ?ls))"
    by auto
  let ?I = "identity_matrix 1 (n * dimen)"
  have I: "length ?I = ?td * ?td" by (simp add: identity_matrix_props mult.commute)
  have res: "compute_ImP Nr Nc Wr Wc dimen
      = Inr (map (\<lambda>i. ?I ! i - (Pr ! i + Pc ! i)) [0..<length ?I])"
    using assms(1) Pr(1,2) Pc(1) I
    by (simp add: compute_ImP_def bnd_def check_def Let_def N c)
  have "mat (map (\<lambda>i. ?I ! i - (Pr ! i + Pc ! i)) [0..<length ?I]) ?td i j
      = (if i = j then 1 else 0)
        - ((\<Sum>k < ?ls. mat Nr ?ls i k * mat Wr ?ls j k) + (\<Sum>k < ?ls. mat Nc ?ls i k * mat Wc ?ls j k))"
    if ij: "i < ?td" "j < ?td" for i j
  proof -
    have lt: "i * ?td + j < ?td * ?td" using ij by (rule index_less)
    have "?I ! (i * ?td + j) = (if i = j then 1 else 0)"
      using identity_matrix_props(2) [of i ?td j 1] ij by (simp add: mult.commute)
    then show ?thesis
      using lt I Pr(3) [OF ij] Pc(3) [OF ij] by (simp add: mat_def add.commute)
  qed
  then show ?thesis using res I by simp
qed

lemma assemble_stiffness_matrix_2D_Inr:
  "\<exists>T. assemble_stiffness_matrix_2D points corner_ixs n young poisson stability_choice = Inr T
     \<and> length T = (2 * n) * (2 * n)"
proof -
  let ?corners = "pick_points 2 points corner_ixs n"
  let ?q = "compute_q_2D ?corners n"
  from compute_Wr_2D_Inr [OF length_compute_q_2D, of ?corners n]
  obtain Wr where Wr: "compute_Wr_2D ?q = Inr Wr" by blast
  from compute_Wc_2D_Inr [OF length_compute_q_2D, of ?corners n]
  obtain Wc where Wc: "compute_Wc_2D ?q = Inr Wc" by blast
  have "\<exists>ImP. compute_ImP (compute_Nr_2D ?corners n) (compute_Nc_2D ?corners n) Wr Wc 2 = Inr ImP"
    using compute_ImP_Inr [of 2 "compute_Nc_2D ?corners n" n "compute_Nr_2D ?corners n" Wr Wc]
    by (simp add: length_compute_Nc_2D) blast
  then obtain ImP where ImP:
    "compute_ImP (compute_Nr_2D ?corners n) (compute_Nc_2D ?corners n) Wr Wc 2 = Inr ImP" by blast
  from final_assembly_props [of 2 "compute_D_2D young poisson" Wc "compute_Nc_2D ?corners n" ImP
      stability_choice "element_volume_2D ?corners n" n]
  obtain T where T: "final_assembly Wc (compute_D_2D young poisson) (compute_Nc_2D ?corners n) ImP
      stability_choice (element_volume_2D ?corners n) n 2 = Inr T" "length T = (2 * n) * (2 * n)"
    by (auto simp add: length_compute_D lsdim_of_def)
  show ?thesis
    using Wr Wc ImP T by (simp add: assemble_stiffness_matrix_2D_def Let_def bnd_def)
qed

lemma length_pick_points: "length (pick_points Dim pts ixs n) = Dim * n"
  by (simp add: pick_points_def length_concat_map_const)

lemma length_compute_q_3D:
  "length (compute_q_3D corners n faces nfe nf volume normals) = n * 3"
  unfolding compute_q_3D_def Let_def
  by (subst length_foldl_inv) (simp_all add: length_foldl_inv)

lemma length_compute_bodyforce_2D:
  "length (compute_bodyforce_2D points cc n bforce target) = length target"
  unfolding compute_bodyforce_2D_def Let_def
  by (subst length_foldl_inv) (simp_all add: length_foldl_inv)

lemma length_compute_bodyforce_3D:
  "length (compute_bodyforce_3D points fc nfc nf centroid bforce b) = length b"
  unfolding compute_bodyforce_3D_def Let_def
  by (subst length_foldl_inv) (simp_all add: length_foldl_inv)

lemma length_compute_applied_forces_3D:
  "length (compute_applied_forces_3D points nfc fc nn nfaces nforces b) = length b"
  unfolding compute_applied_forces_3D_def Let_def
  by (subst length_foldl_inv) (simp_all add: length_foldl_inv)

lemma assemble_stiffness_matrix_3D_Inr:
  assumes "compute_cell_geometry
      (pick_points 3 points (snd (global_to_local_indexing faces nfe nf))
         (length (snd (global_to_local_indexing faces nfe nf))))
      (length (snd (global_to_local_indexing faces nfe nf)))
      (map (\<lambda>I. the (fst (global_to_local_indexing faces nfe nf) I))
         (take (sum_list (take nf nfe)) faces)) nfe nf = Inr geo"
  shows "\<exists>res. assemble_stiffness_matrix_3D points faces nfe nf young poisson stability_choice
      = Inr res"
proof -
  obtain reindex indexing where g: "global_to_local_indexing faces nfe nf = (reindex, indexing)"
    by (cases "global_to_local_indexing faces nfe nf")
  obtain normals fcs centroid sp volume where geo: "geo = (normals, fcs, centroid, sp, volume)"
    by (cases geo) auto
  let ?n = "length indexing"
  let ?corners = "pick_points 3 points indexing ?n"
  let ?floc = "map (\<lambda>I. the (reindex I)) (take (sum_list (take nf nfe)) faces)"
  let ?q = "compute_q_3D ?corners (length ?corners div 3) ?floc nfe nf volume normals"
  have lq: "length ?q = ?n * 3" by (simp add: length_compute_q_3D length_pick_points)
  from compute_Wr_3D_Inr [OF lq] obtain Wr where Wr: "compute_Wr_3D ?q = Inr Wr" by blast
  from compute_Wc_3D_Inr [OF lq] obtain Wc where Wc: "compute_Wc_3D ?q = Inr Wc" by blast
  have "\<exists>ImP. compute_ImP (compute_Nr_3D ?corners ?n) (compute_Nc_3D ?corners ?n) Wr Wc 3 = Inr ImP"
    using compute_ImP_Inr [of 3 "compute_Nc_3D ?corners ?n" ?n "compute_Nr_3D ?corners ?n" Wr Wc]
    by (simp add: length_compute_Nc_3D) blast
  then obtain ImP where ImP:
    "compute_ImP (compute_Nr_3D ?corners ?n) (compute_Nc_3D ?corners ?n) Wr Wc 3 = Inr ImP" by blast
  from final_assembly_props [of 3 "compute_D_3D young poisson" Wc "compute_Nc_3D ?corners ?n" ImP
      stability_choice volume ?n]
  obtain T where T: "final_assembly Wc (compute_D_3D young poisson) (compute_Nc_3D ?corners ?n) ImP
      stability_choice volume ?n 3 = Inr T"
    by (auto simp add: length_compute_D lsdim_of_def)
  show ?thesis
    using assms g geo Wr Wc ImP T
    by (simp add: assemble_stiffness_matrix_3D_def Let_def bnd_def)
qed

lemma assemble_cell_2D_Inr:
  "\<exists>A' b'. assemble_cell_2D points ncf cc young poisson bf sc (Inr (A, b)) c = Inr (A', b')
     \<and> length b' = length b"
proof -
  from assemble_stiffness_matrix_2D_Inr
  obtain T where "assemble_stiffness_matrix_2D points (drop (sum_list (take c ncf)) cc) (ncf ! c)
      (young ! c) (poisson ! c) sc = Inr T" by blast
  then show ?thesis
    by (simp add: assemble_cell_2D_def Let_def bnd_def length_foldl_update)
qed

lemma assemble_cells_2D_Inr:
  "\<exists>A' b'. foldl (assemble_cell_2D points ncf cc young poisson bf sc) (Inr (A, b)) cs = Inr (A', b')
     \<and> length b' = length b"
proof (induction cs arbitrary: A b)
  case Nil
  show ?case by simp
next
  case (Cons c cs)
  from assemble_cell_2D_Inr [of points ncf cc young poisson bf sc A b c]
  obtain A1 b1 where s: "assemble_cell_2D points ncf cc young poisson bf sc (Inr (A, b)) c = Inr (A1, b1)"
    "length b1 = length b" by blast
  show ?case using Cons [of A1 b1] s by simp
qed

lemma assemble_cell_3D_length:
  "assemble_cell_3D points ncf nfc fc young poisson bf sc st c = Inr (A', b') \<Longrightarrow>
   \<exists>A b. st = Inr (A, b) \<and> length b' = length b"
  by (auto simp add: assemble_cell_3D_def Let_def bnd_def length_compute_bodyforce_3D
        split: sum.splits prod.splits)

lemma assemble_cells_3D_length:
  "foldl (assemble_cell_3D points ncf nfc fc young poisson bf sc) st cs = Inr (A', b') \<Longrightarrow>
   \<exists>A b. st = Inr (A, b) \<and> length b' = length b"
proof (induction cs arbitrary: st)
  case Nil
  then show ?case by simp
next
  case (Cons c cs)
  from Cons.IH [of "assemble_cell_3D points ncf nfc fc young poisson bf sc st c"] Cons.prems
  obtain A1 b1 where s: "assemble_cell_3D points ncf nfc fc young poisson bf sc st c = Inr (A1, b1)"
    "length b' = length b1" by auto
  from assemble_cell_3D_length [OF s(1)] s(2) show ?case by auto
qed

subsection \<open>Global assembly\<close>

lemma boundary_length:
  assumes "(if reduce_boundary then reduce_system A b n ixs vals
            else set_boundary_conditions A b n ixs vals) = (None, A', b')"
    and "reduce_boundary \<longrightarrow> distinct (take n ixs) \<and> n \<le> length ixs
           \<and> (\<forall>d \<in> set (take n ixs). 0 \<le> d \<and> d < int (length b))"
  shows "length b' = (if reduce_boundary then length b - n else length b)"
proof -
  have s: "sorted (take n ixs)"
    using assms(1) by (auto simp add: reduce_system_def set_boundary_conditions_def split: if_splits)
  show ?thesis
  proof (cases reduce_boundary)
    case True
    with assms(2) have h: "distinct (take n ixs)" "n \<le> length ixs"
      "\<forall>d \<in> set (take n ixs). 0 \<le> d \<and> d < int (length b)" by simp_all
    from reduce_system_length [OF s, of A b vals] assms(1) True
    have "length b' = length (compute_renum (length b) n ixs)" by auto
    then show ?thesis using True length_compute_renum [OF s h] by simp
  next
    case False
    with set_boundary_conditions_length [OF s, of A b vals] assms(1) show ?thesis by auto
  qed
qed

lemma boundary_sorted_None:
  "sorted (take n ixs) \<Longrightarrow>
   \<exists>A' b'. (if reduce_boundary then reduce_system A b n ixs vals
             else set_boundary_conditions A b n ixs vals) = (None, A', b')"
  using reduce_system_length [of n ixs A b vals] set_boundary_conditions_length [of n ixs A b vals]
  by (cases reduce_boundary) auto

lemma assemble_mech_system_2D_result:
  assumes "assemble_mech_system_2D points num_cells num_cell_faces cell_corners young poisson
       body_force num_fixed_dofs fixed_dof_ixs fixed_dof_values num_neumann_faces neumann_faces
       neumann_forces stability_choice reduce_boundary = Inr (ret, A, b)"
    and "reduce_boundary \<longrightarrow> distinct (take num_fixed_dofs fixed_dof_ixs)
           \<and> num_fixed_dofs \<le> length fixed_dof_ixs
           \<and> (\<forall>d \<in> set (take num_fixed_dofs fixed_dof_ixs). 0 \<le> d
                 \<and> d < int (2 * (Max (set (take (sum_list (take num_cells num_cell_faces))
                                          cell_corners)) + 1)))"
  shows "ret = length b
    \<and> length b = (if reduce_boundary
         then 2 * (Max (set (take (sum_list (take num_cells num_cell_faces)) cell_corners)) + 1)
              - num_fixed_dofs
         else 2 * (Max (set (take (sum_list (take num_cells num_cell_faces)) cell_corners)) + 1))"
proof -
  let ?np = "Max (set (take (sum_list (take num_cells num_cell_faces)) cell_corners)) + 1"
  from assemble_cells_2D_Inr [of points num_cell_faces cell_corners young poisson body_force
      stability_choice "[]" "replicate (?np * 2) 0" "[0..<num_cells]"]
  obtain A1 b1 where f: "foldl (assemble_cell_2D points num_cell_faces cell_corners young poisson
      body_force stability_choice) (Inr ([], replicate (?np * 2) 0)) [0..<num_cells] = Inr (A1, b1)"
    "length b1 = ?np * 2" by auto
  let ?b2 = "foldl (\<lambda>b f.
      (let fvals = compute_applied_forces_2D points (neumann_faces ! (2 * f))
                     (neumann_faces ! (2 * f + 1)) (neumann_forces ! (2 * f))
                     (neumann_forces ! (2 * f + 1));
           n1 = neumann_faces ! (2 * f);
           n2 = neumann_faces ! (2 * f + 1);
           ba = b[2 * n1 := b ! (2 * n1) + fvals ! 0];
           bb = ba[2 * n1 + 1 := ba ! (2 * n1 + 1) + fvals ! 1];
           bc = bb[2 * n2 := bb ! (2 * n2) + fvals ! 2]
       in bc[2 * n2 + 1 := bc ! (2 * n2 + 1) + fvals ! 3])) b1 [0..<num_neumann_faces]"
  have "length ?b2 = length b1" by (rule length_foldl_inv) (simp add: Let_def)
  then have l2: "length ?b2 = 2 * ?np" using f(2) by simp
  from assms(1) f(1) have bc: "(if reduce_boundary
       then reduce_system A1 ?b2 num_fixed_dofs fixed_dof_ixs fixed_dof_values
       else set_boundary_conditions A1 ?b2 num_fixed_dofs fixed_dof_ixs fixed_dof_values)
      = (None, A, b)" and ret: "ret = length b"
    by (auto simp add: assemble_mech_system_2D_def Let_def bnd_def split: prod.splits option.splits)
  from boundary_length [OF bc] assms(2) l2 ret show ?thesis by simp
qed

lemma assemble_mech_system_2D_returns:
  assumes "sorted (take num_fixed_dofs fixed_dof_ixs)"
  shows "\<exists>r. assemble_mech_system_2D points num_cells num_cell_faces cell_corners young poisson
       body_force num_fixed_dofs fixed_dof_ixs fixed_dof_values num_neumann_faces neumann_faces
       neumann_forces stability_choice reduce_boundary = Inr r"
proof -
  let ?np = "Max (set (take (sum_list (take num_cells num_cell_faces)) cell_corners)) + 1"
  from assemble_cells_2D_Inr [of points num_cell_faces cell_corners young poisson body_force
      stability_choice "[]" "replicate (?np * 2) 0" "[0..<num_cells]"]
  obtain A1 b1 where f: "foldl (assemble_cell_2D points num_cell_faces cell_corners young poisson
      body_force stability_choice) (Inr ([], replicate (?np * 2) 0)) [0..<num_cells] = Inr (A1, b1)"
    by auto
  let ?b2 = "foldl (\<lambda>b f.
      (let fvals = compute_applied_forces_2D points (neumann_faces ! (2 * f))
                     (neumann_faces ! (2 * f + 1)) (neumann_forces ! (2 * f))
                     (neumann_forces ! (2 * f + 1));
           n1 = neumann_faces ! (2 * f);
           n2 = neumann_faces ! (2 * f + 1);
           ba = b[2 * n1 := b ! (2 * n1) + fvals ! 0];
           bb = ba[2 * n1 + 1 := ba ! (2 * n1 + 1) + fvals ! 1];
           bc = bb[2 * n2 := bb ! (2 * n2) + fvals ! 2]
       in bc[2 * n2 + 1 := bc ! (2 * n2 + 1) + fvals ! 3])) b1 [0..<num_neumann_faces]"
  from boundary_sorted_None [OF assms, of reduce_boundary A1 ?b2 fixed_dof_values]
  obtain A' b' where "(if reduce_boundary
       then reduce_system A1 ?b2 num_fixed_dofs fixed_dof_ixs fixed_dof_values
       else set_boundary_conditions A1 ?b2 num_fixed_dofs fixed_dof_ixs fixed_dof_values)
      = (None, A', b')" by blast
  then show ?thesis using f
    by (auto simp add: assemble_mech_system_2D_def Let_def bnd_def split: if_splits)
qed

lemma assemble_mech_system_3D_result:
  assumes "assemble_mech_system_3D points num_cells num_cell_faces num_face_corners face_corners
       young poisson body_force num_fixed_dofs fixed_dof_ixs fixed_dof_values num_neumann_faces
       neumann_faces neumann_forces stability_choice reduce_boundary = Inr (ret, A, b)"
    and "reduce_boundary \<longrightarrow> distinct (take num_fixed_dofs fixed_dof_ixs)
           \<and> num_fixed_dofs \<le> length fixed_dof_ixs
           \<and> (\<forall>d \<in> set (take num_fixed_dofs fixed_dof_ixs). 0 \<le> d
                 \<and> d < int (3 * (Max (set (take (sum_list (take (sum_list (take num_cells
                       num_cell_faces)) num_face_corners)) face_corners)) + 1)))"
  shows "ret = length b
    \<and> length b = (if reduce_boundary
         then 3 * (Max (set (take (sum_list (take (sum_list (take num_cells num_cell_faces))
                     num_face_corners)) face_corners)) + 1) - num_fixed_dofs
         else 3 * (Max (set (take (sum_list (take (sum_list (take num_cells num_cell_faces))
                     num_face_corners)) face_corners)) + 1))"
proof -
  let ?np = "Max (set (take (sum_list (take (sum_list (take num_cells num_cell_faces))
                     num_face_corners)) face_corners)) + 1"
  let ?fold = "foldl (assemble_cell_3D points num_cell_faces num_face_corners face_corners young
      poisson body_force stability_choice) (Inr ([], replicate (?np * 3) 0)) [0..<num_cells]"
  from assms(1) obtain A1 b1 where f: "?fold = Inr (A1, b1)"
    by (cases ?fold) (auto simp add: assemble_mech_system_3D_def Let_def bnd_def)
  from assemble_cells_3D_length [OF f] have l1: "length b1 = ?np * 3" by auto
  let ?b2 = "compute_applied_forces_3D points num_face_corners face_corners num_neumann_faces
      neumann_faces neumann_forces b1"
  have l2: "length ?b2 = 3 * ?np" using l1 by (simp add: length_compute_applied_forces_3D)
  from assms(1) f have bc: "(if reduce_boundary
       then reduce_system A1 ?b2 num_fixed_dofs fixed_dof_ixs fixed_dof_values
       else set_boundary_conditions A1 ?b2 num_fixed_dofs fixed_dof_ixs fixed_dof_values)
      = (None, A, b)" and ret: "ret = length b"
    by (auto simp add: assemble_mech_system_3D_def Let_def bnd_def split: prod.splits option.splits)
  from boundary_length [OF bc] assms(2) l2 ret show ?thesis by simp
qed

lemma sum_lessThan_1: "(\<Sum>i<(1::nat). f i) = (f 0 :: real)"
  by simp

lemma compute_cell_geometry_one_face:
  "\<exists>geo. compute_cell_geometry points np faces nfe 1 = Inr geo"
proof -
  obtain ns cs where g: "cell_face_geometry points faces nfe 1 = (ns, cs)"
    by (cases "cell_face_geometry points faces nfe 1")
  have len: "length ns = 3" "length cs = 3"
    using length_cell_face_geometry [of points faces nfe 1] g by simp_all
  have "orientation_sum ns cs = 0"
    using len by (simp add: orientation_sum_def centroid_average_def dot3_def sub3_def upt3
        numeral_2_eq_2)
  then have inw: "\<not> inward_pointing_normals ns cs"
    using inward_pointing_normals_iff [of ns cs] len by simp
  have "fst (identify_star_point_run p ns cs) = 1" for p
    using len
    by (simp add: identify_star_point_run_def Let_def star_loop_numeral fst_star_step)
  then have "\<exists>sp. identify_star_point p ns cs = Inr sp" for p
    using len by (cases "identify_star_point_run p ns cs")
      (auto simp add: identify_star_point_def Let_def dest: arg_cong [where f = fst])
  then obtain sp where "identify_star_point (point_average 3 points np) ns cs = Inr sp" by blast
  then show ?thesis using g inw
    by (simp add: compute_cell_geometry_def Let_def split: prod.splits)
qed

lemma assemble_mech_system_3D_one_face_returns:
  assumes "sorted (take num_fixed_dofs fixed_dof_ixs)"
  shows "\<exists>r. assemble_mech_system_3D points 1 [1] num_face_corners face_corners
       young poisson body_force num_fixed_dofs fixed_dof_ixs fixed_dof_values num_neumann_faces
       neumann_faces neumann_forces stability_choice reduce_boundary = Inr r"
proof -
  let ?np = "Max (set (take (sum_list (take (sum_list (take 1 [1::nat])) num_face_corners))
      face_corners)) + 1"
  let ?g = "global_to_local_indexing face_corners num_face_corners 1"
  from compute_cell_geometry_one_face obtain geo where
    "compute_cell_geometry (pick_points 3 points (snd ?g) (length (snd ?g))) (length (snd ?g))
      (map (\<lambda>I. the (fst ?g I)) (take (sum_list (take 1 num_face_corners)) face_corners))
      num_face_corners 1 = Inr geo" by blast
  from assemble_stiffness_matrix_3D_Inr [OF this] obtain res where
    res: "assemble_stiffness_matrix_3D points face_corners num_face_corners 1 (young ! 0)
      (poisson ! 0) stability_choice = Inr res" by blast
  obtain centroid loc_indexing loc where r: "res = (centroid, loc_indexing, loc)" by (cases res)
  have "\<exists>A1 b1. foldl (assemble_cell_3D points [1] num_face_corners face_corners young
      poisson body_force stability_choice) (Inr ([], replicate (?np * 3) 0)) [0..<1] = Inr (A1, b1)"
    using res r by (simp add: assemble_cell_3D_def Let_def bnd_def)
  then obtain A1 b1 where f: "foldl (assemble_cell_3D points [1] num_face_corners face_corners
      young poisson body_force stability_choice) (Inr ([], replicate (?np * 3) 0)) [0..<1]
      = Inr (A1, b1)" by blast
  let ?b2 = "compute_applied_forces_3D points num_face_corners face_corners num_neumann_faces
      neumann_faces neumann_forces b1"
  from boundary_sorted_None [OF assms, of reduce_boundary A1 ?b2 fixed_dof_values]
  obtain A' b' where "(if reduce_boundary
       then reduce_system A1 ?b2 num_fixed_dofs fixed_dof_ixs fixed_dof_values
       else set_boundary_conditions A1 ?b2 num_fixed_dofs fixed_dof_ixs fixed_dof_values)
      = (None, A', b')" by blast
  then show ?thesis using f
    by (auto simp add: assemble_mech_system_3D_def Let_def bnd_def split: if_splits)
qed

subsection \<open>Projectors\<close>

lemma sum_lessThan_add:
  fixes a b :: nat
  shows "(\<Sum>k<a + b. f k) = (\<Sum>k<a. f k) + (\<Sum>k<b. f (a + k) :: real)"
  by (induction b) (simp_all add: add.assoc)

lemma sum_delta_left:
  fixes i n :: nat
  assumes i: "i < n"
  shows "(\<Sum>m<n. (if i = m then 1 else 0) * f m) = (f i :: real)"
proof -
  have "(\<Sum>m<n. (if i = m then 1 else 0) * f m) = (\<Sum>m\<in>{..<n}. if m = i then f m else 0)"
    by (intro sum.cong refl) auto
  also have "\<dots> = f i" using i by (simp add: sum.delta)
  finally show ?thesis .
qed

lemma sum_delta_right:
  fixes j n :: nat
  assumes j: "j < n"
  shows "(\<Sum>m<n. f m * (if m = j then 1 else 0)) = (f j :: real)"
proof -
  have "(\<Sum>m<n. f m * (if m = j then 1 else 0)) = (\<Sum>m\<in>{..<n}. if m = j then f m else 0)"
    by (intro sum.cong refl) auto
  also have "\<dots> = f j" using j by (simp add: sum.delta)
  finally show ?thesis .
qed

text \<open>A product N W^t with W^t N = I is a projector.\<close>

lemma gram_projector:
  fixes N W :: "nat \<Rightarrow> nat \<Rightarrow> real"
  assumes gram: "\<And>k l. k < K \<Longrightarrow> l < K \<Longrightarrow> (\<Sum>m<n. W m k * N m l) = (if k = l then 1 else 0)"
  shows "(\<Sum>m<n. (\<Sum>k<K. N i k * W m k) * (\<Sum>l<K. N m l * W j l)) = (\<Sum>k<K. N i k * W j k)"
proof -
  have "(\<Sum>m<n. (\<Sum>k<K. N i k * W m k) * (\<Sum>l<K. N m l * W j l))
      = (\<Sum>m<n. \<Sum>k<K. \<Sum>l<K. N i k * W m k * (N m l * W j l))"
    by (simp add: sum_product)
  also have "\<dots> = (\<Sum>k<K. \<Sum>m<n. \<Sum>l<K. N i k * W m k * (N m l * W j l))"
    by (rule sum.swap)
  also have "\<dots> = (\<Sum>k<K. \<Sum>l<K. \<Sum>m<n. N i k * W m k * (N m l * W j l))"
    by (intro sum.cong refl sum.swap)
  also have "\<dots> = (\<Sum>k<K. \<Sum>l<K. N i k * (\<Sum>m<n. W m k * N m l) * W j l)"
    by (intro sum.cong refl) (simp add: sum_distrib_left sum_distrib_right mult.assoc)
  also have "\<dots> = (\<Sum>k<K. \<Sum>l<K. N i k * (if k = l then 1 else 0) * W j l)"
    by (intro sum.cong refl) (simp add: gram)
  also have "\<dots> = (\<Sum>k<K. N i k * W j k)"
  proof (intro sum.cong refl)
    fix k assume "k \<in> {..<K}"
    then have k: "k < K" by simp
    have "(\<Sum>l<K. N i k * (if k = l then 1 else 0) * W j l)
        = N i k * (\<Sum>l<K. (if k = l then 1 else 0) * W j l)"
      by (simp add: sum_distrib_left mult.assoc)
    then show "(\<Sum>l<K. N i k * (if k = l then 1 else 0) * W j l) = N i k * W j k"
      using sum_delta_left [OF k, of "W j"] by simp
  qed
  finally show ?thesis .
qed

lemma complement_idempotent:
  fixes P :: "nat \<Rightarrow> nat \<Rightarrow> real"
  assumes "\<And>i j. i < n \<Longrightarrow> j < n \<Longrightarrow> (\<Sum>m<n. P i m * P m j) = P i j" "i < n" "j < n"
  shows "(\<Sum>m<n. ((if i = m then 1 else 0) - P i m) * ((if m = j then 1 else 0) - P m j))
      = (if i = j then 1 else 0) - P i j"
proof -
  have "(\<Sum>m<n. ((if i = m then 1 else 0) - P i m) * ((if m = j then 1 else 0) - P m j))
      = (\<Sum>m<n. (if i = m then 1 else 0) * ((if m = j then 1 else 0) - P m j))
        - (\<Sum>m<n. P i m * (if m = j then 1 else 0)) + (\<Sum>m<n. P i m * P m j)"
    by (simp add: algebra_simps sum.distrib sum_subtractf)
  also have "\<dots> = ((if i = j then 1 else 0) - P i j) - P i j + P i j"
    using sum_delta_left [OF assms(2), of "\<lambda>m. (if m = j then 1 else 0) - P m j"]
      sum_delta_right [OF assms(3), of "P i"] assms(1) [OF assms(2,3)]
    by simp
  finally show ?thesis by simp
qed

text \<open>Two pairs of matrices with K columns each, as one pair with K + K columns.\<close>

lemma gram_projector2:
  fixes Nr Wr Nc Wc :: "nat \<Rightarrow> nat \<Rightarrow> real"
  assumes rr: "\<And>k l. k < K \<Longrightarrow> l < K \<Longrightarrow> (\<Sum>m<n. Wr m k * Nr m l) = (if k = l then 1 else 0)"
    and rc: "\<And>k l. k < K \<Longrightarrow> l < K \<Longrightarrow> (\<Sum>m<n. Wr m k * Nc m l) = 0"
    and cr: "\<And>k l. k < K \<Longrightarrow> l < K \<Longrightarrow> (\<Sum>m<n. Wc m k * Nr m l) = 0"
    and cc: "\<And>k l. k < K \<Longrightarrow> l < K \<Longrightarrow> (\<Sum>m<n. Wc m k * Nc m l) = (if k = l then 1 else 0)"
  shows "(\<Sum>m<n. ((\<Sum>k<K. Nr i k * Wr m k) + (\<Sum>k<K. Nc i k * Wc m k))
                * ((\<Sum>k<K. Nr m k * Wr j k) + (\<Sum>k<K. Nc m k * Wc j k)))
      = (\<Sum>k<K. Nr i k * Wr j k) + (\<Sum>k<K. Nc i k * Wc j k)"
proof -
  let ?N = "\<lambda>m k. if k < K then Nr m k else Nc m (k - K)"
  let ?W = "\<lambda>m k. if k < K then Wr m k else Wc m (k - K)"
  have split: "(\<Sum>k<K + K. ?N a k * ?W b k) = (\<Sum>k<K. Nr a k * Wr b k) + (\<Sum>k<K. Nc a k * Wc b k)"
    for a b
    by (simp add: sum_lessThan_add)
  have gram: "(\<Sum>m<n. ?W m k * ?N m l) = (if k = l then 1 else 0)" if "k < K + K" "l < K + K" for k l
  proof (cases "k < K")
    case kK: True
    show ?thesis
    proof (cases "l < K")
      case True
      then show ?thesis using kK rr by simp
    next
      case False
      then have "l - K < K" "k \<noteq> l" using that kK by auto
      then show ?thesis using kK False rc by simp
    qed
  next
    case kK: False
    then have k': "k - K < K" using that by auto
    show ?thesis
    proof (cases "l < K")
      case True
      then have "k \<noteq> l" using kK by auto
      then show ?thesis using kK True k' cr by simp
    next
      case False
      then have "l - K < K" "(k - K = l - K) = (k = l)" using that kK by auto
      then show ?thesis using kK False k' cc by simp
    qed
  qed
  from gram_projector [where K = "K + K" and n = n and W = ?W and N = ?N and i = i and j = j, OF gram]
  show ?thesis unfolding split by simp
qed

lemma sum_pairs:
  fixes n :: nat
  shows "(\<Sum>m<2 * n. g m) = (\<Sum>a<n. g (2 * a) + g (2 * a + 1) :: real)"
  by (induction n) (simp_all add: algebra_simps)

lemma sum_triples:
  fixes n :: nat
  shows "(\<Sum>m<3 * n. g m) = (\<Sum>a<n. g (3 * a) + g (3 * a + 1) + g (3 * a + 2) :: real)"
proof (induction n)
  case 0
  show ?case by simp
next
  case (Suc n)
  have "3 * Suc n = Suc (Suc (Suc (3 * n)))" by simp
  then show ?case using Suc by (simp add: eval_nat_numeral algebra_simps)
qed

lemma less3_cases: "k < 3 \<Longrightarrow> (k = 0 \<or> k = 1 \<or> k = (2::nat))"
  by auto

lemma gram_2D:
  fixes qx qy dx dy :: "nat \<Rightarrow> real" and n :: nat
  assumes n: "0 < n"
    and d0: "(\<Sum>a<n. dx a) = 0" "(\<Sum>a<n. dy a) = 0"
    and q0: "(\<Sum>a<n. qx a) = 0" "(\<Sum>a<n. qy a) = 0"
    and qd: "(\<Sum>a<n. qx a * dx a) = 1 / 2" "(\<Sum>a<n. qy a * dy a) = 1 / 2"
      "(\<Sum>a<n. qx a * dy a) = 0" "(\<Sum>a<n. qy a * dx a) = 0"
    and Nr: "\<And>m k. Nr m k = [1, 0, dy (m div 2), 0, 1, - dx (m div 2)] ! (3 * (m mod 2) + k)"
    and Wr: "\<And>m k. Wr m k = [1 / real n, 0, qy (m div 2), 0, 1 / real n, - qx (m div 2)]
                          ! (3 * (m mod 2) + k)"
    and Nc: "\<And>m k. Nc m k = [dx (m div 2), 0, dy (m div 2), 0, dy (m div 2), dx (m div 2)]
                          ! (3 * (m mod 2) + k)"
    and Wc: "\<And>m k. Wc m k = [2 * qx (m div 2), 0, qy (m div 2), 0, 2 * qy (m div 2), qx (m div 2)]
                          ! (3 * (m mod 2) + k)"
    and kl: "k < 3" "l < 3"
  shows "(\<Sum>m<2 * n. Wr m k * Nr m l) = (if k = l then 1 else 0)"
    "(\<Sum>m<2 * n. Wr m k * Nc m l) = 0"
    "(\<Sum>m<2 * n. Wc m k * Nr m l) = 0"
    "(\<Sum>m<2 * n. Wc m k * Nc m l) = (if k = l then 1 else 0)"
proof -
  have one: "(\<Sum>a<n. 1 / real n) = 1" using n by simp
  have comm: "(\<Sum>a<n. dx a * qx a) = 1 / 2" "(\<Sum>a<n. dy a * qy a) = 1 / 2"
    "(\<Sum>a<n. dy a * qx a) = 0" "(\<Sum>a<n. dx a * qy a) = 0"
    using qd by (simp_all add: mult.commute)
  note facts = d0 q0 qd comm sum.distrib sum_negf sum_subtractf sum_divide_distrib [symmetric]
    sum_distrib_left [symmetric] sum_distrib_right [symmetric]
  from less3_cases [OF kl(1)] less3_cases [OF kl(2)]
  show "(\<Sum>m<2 * n. Wr m k * Nr m l) = (if k = l then 1 else 0)"
    using n by (auto simp add: sum_pairs Nr Wr facts)
  from less3_cases [OF kl(1)] less3_cases [OF kl(2)]
  show "(\<Sum>m<2 * n. Wr m k * Nc m l) = 0"
    using n by (auto simp add: sum_pairs Nc Wr facts)
  from less3_cases [OF kl(1)] less3_cases [OF kl(2)]
  show "(\<Sum>m<2 * n. Wc m k * Nr m l) = 0"
    by (auto simp add: sum_pairs Nr Wc mult.assoc facts)
  from less3_cases [OF kl(1)] less3_cases [OF kl(2)]
  show "(\<Sum>m<2 * n. Wc m k * Nc m l) = (if k = l then 1 else 0)"
    by (auto simp add: sum_pairs Nc Wc mult.assoc facts)
qed

lemma less6_cases: "k < 6 \<Longrightarrow> (k = 0 \<or> k = 1 \<or> k = 2 \<or> k = 3 \<or> k = 4 \<or> k = (5::nat))"
  by auto

lemma gram_3D:
  fixes qx qy qz dx dy dz :: "nat \<Rightarrow> real" and n :: nat
  assumes n: "0 < n"
    and d0: "(\<Sum>a<n. dx a) = 0" "(\<Sum>a<n. dy a) = 0" "(\<Sum>a<n. dz a) = 0"
    and q0: "(\<Sum>a<n. qx a) = 0" "(\<Sum>a<n. qy a) = 0" "(\<Sum>a<n. qz a) = 0"
    and qd: "(\<Sum>a<n. qx a * dx a) = 1 / 2" "(\<Sum>a<n. qy a * dy a) = 1 / 2"
      "(\<Sum>a<n. qz a * dz a) = 1 / 2"
      "(\<Sum>a<n. qx a * dy a) = 0" "(\<Sum>a<n. qx a * dz a) = 0"
      "(\<Sum>a<n. qy a * dx a) = 0" "(\<Sum>a<n. qy a * dz a) = 0"
      "(\<Sum>a<n. qz a * dx a) = 0" "(\<Sum>a<n. qz a * dy a) = 0"
    and Nr: "\<And>m k. Nr m k =
        [1, 0, 0, dy (m div 3), 0, - dz (m div 3),
         0, 1, 0, - dx (m div 3), dz (m div 3), 0,
         0, 0, 1, 0, - dy (m div 3), dx (m div 3)] ! (6 * (m mod 3) + k)"
    and Wr: "\<And>m k. Wr m k =
        [1 / real n, 0, 0, qy (m div 3), 0, - qz (m div 3),
         0, 1 / real n, 0, - qx (m div 3), qz (m div 3), 0,
         0, 0, 1 / real n, 0, - qy (m div 3), qx (m div 3)] ! (6 * (m mod 3) + k)"
    and Nc: "\<And>m k. Nc m k =
        [dx (m div 3), 0, 0, dy (m div 3), 0, dz (m div 3),
         0, dy (m div 3), 0, dx (m div 3), dz (m div 3), 0,
         0, 0, dz (m div 3), 0, dy (m div 3), dx (m div 3)] ! (6 * (m mod 3) + k)"
    and Wc: "\<And>m k. Wc m k =
        [2 * qx (m div 3), 0, 0, qy (m div 3), 0, qz (m div 3),
         0, 2 * qy (m div 3), 0, qx (m div 3), qz (m div 3), 0,
         0, 0, 2 * qz (m div 3), 0, qy (m div 3), qx (m div 3)] ! (6 * (m mod 3) + k)"
    and kl: "k < 6" "l < 6"
  shows "(\<Sum>m<3 * n. Wr m k * Nr m l) = (if k = l then 1 else 0)"
    "(\<Sum>m<3 * n. Wr m k * Nc m l) = 0"
    "(\<Sum>m<3 * n. Wc m k * Nr m l) = 0"
    "(\<Sum>m<3 * n. Wc m k * Nc m l) = (if k = l then 1 else 0)"
proof -
  have one: "(\<Sum>a<n. 1 / real n) = 1" using n by simp
  have comm: "(\<Sum>a<n. dx a * qx a) = 1 / 2" "(\<Sum>a<n. dy a * qy a) = 1 / 2"
    "(\<Sum>a<n. dz a * qz a) = 1 / 2"
    "(\<Sum>a<n. dy a * qx a) = 0" "(\<Sum>a<n. dz a * qx a) = 0"
    "(\<Sum>a<n. dx a * qy a) = 0" "(\<Sum>a<n. dz a * qy a) = 0"
    "(\<Sum>a<n. dx a * qz a) = 0" "(\<Sum>a<n. dy a * qz a) = 0"
    using qd by (simp_all add: mult.commute)
  note facts = d0 q0 qd comm sum.distrib sum_negf sum_subtractf sum_divide_distrib [symmetric]
    sum_distrib_left [symmetric] sum_distrib_right [symmetric]
  have m3: "(3 * a) div 3 = a" "(3 * a) mod 3 = 0"
    "(3 * a + 1) div 3 = a" "(3 * a + 2) div 3 = a" "(3 * a + 1) mod 3 = 1"
    "(3 * a + 2) mod 3 = 2" for a :: nat
    by presburger+
  have ix: "6 * 0 + k = k" "6 * 1 + k = 6 + k" "6 * 2 + k = 12 + k" for k :: nat
    by simp_all
  note unf = sum_triples Nr Wr Nc Wc m3 ix
  from less6_cases [OF kl(1)] less6_cases [OF kl(2)]
  show "(\<Sum>m<3 * n. Wr m k * Nr m l) = (if k = l then 1 else 0)"
    unfolding unf using n by (auto simp add: facts)
  from less6_cases [OF kl(1)] less6_cases [OF kl(2)]
  show "(\<Sum>m<3 * n. Wr m k * Nc m l) = 0"
    unfolding unf using n by (auto simp add: facts)
  from less6_cases [OF kl(1)] less6_cases [OF kl(2)]
  show "(\<Sum>m<3 * n. Wc m k * Nr m l) = 0"
    unfolding unf by (auto simp add: mult.assoc facts)
  from less6_cases [OF kl(1)] less6_cases [OF kl(2)]
  show "(\<Sum>m<3 * n. Wc m k * Nc m l) = (if k = l then 1 else 0)"
    unfolding unf by (auto simp add: mult.assoc facts)
qed

lemma nth_concat_blocks:
  assumes "\<And>i. length (f i) = B" "a < n" "r < B"
  shows "concat (map f [0..<n]) ! (a * B + r) = f a ! r"
  using assms(2)
proof (induction n)
  case 0
  then show ?case by simp
next
  case (Suc n)
  have len: "length (concat (map f [0..<n])) = B * n"
    using assms(1) by (rule length_concat_map_const)
  show ?case
  proof (cases "a < n")
    case True
    then have "a * B + r < n * B" using assms(3) by (rule index_less)
    then show ?thesis using Suc.IH [OF True] len by (simp add: nth_append mult.commute)
  next
    case False
    then have "a = n" using Suc.prems by simp
    then show ?thesis using len assms(3) by (simp add: nth_append mult.commute)
  qed
qed

lemma list_eq_matI:
  assumes "length xs = n * n" "length ys = n * n"
    "\<And>i j. i < n \<Longrightarrow> j < n \<Longrightarrow> xs ! (i * n + j) = ys ! (i * n + j)"
  shows "xs = ys"
proof (rule nth_equalityI)
  show "length xs = length ys" using assms(1,2) by simp
next
  fix p assume "p < length xs"
  then have p: "p < n * n" using assms(1) by simp
  then have n: "0 < n" by (cases n) simp_all
  have "p div n < n" using p by (simp add: less_mult_imp_div_less)
  moreover have "p mod n < n" using n by simp
  ultimately have "xs ! (p div n * n + p mod n) = ys ! (p div n * n + p mod n)" by (rule assms(3))
  then show "xs ! p = ys ! p" by simp
qed

lemma compute_ImP_idempotent:
  assumes dimen: "dimen = 2 \<or> dimen = 3"
    and len: "length Nc = (if dimen = 2 then 6 else 18) * n"
    and rr: "\<And>k l. k < lsdim_of dimen \<Longrightarrow> l < lsdim_of dimen \<Longrightarrow>
      (\<Sum>m<dimen * n. mat Wr (lsdim_of dimen) m k * mat Nr (lsdim_of dimen) m l)
        = (if k = l then 1 else 0)"
    and rc: "\<And>k l. k < lsdim_of dimen \<Longrightarrow> l < lsdim_of dimen \<Longrightarrow>
      (\<Sum>m<dimen * n. mat Wr (lsdim_of dimen) m k * mat Nc (lsdim_of dimen) m l) = 0"
    and cr: "\<And>k l. k < lsdim_of dimen \<Longrightarrow> l < lsdim_of dimen \<Longrightarrow>
      (\<Sum>m<dimen * n. mat Wc (lsdim_of dimen) m k * mat Nr (lsdim_of dimen) m l) = 0"
    and cc: "\<And>k l. k < lsdim_of dimen \<Longrightarrow> l < lsdim_of dimen \<Longrightarrow>
      (\<Sum>m<dimen * n. mat Wc (lsdim_of dimen) m k * mat Nc (lsdim_of dimen) m l)
        = (if k = l then 1 else 0)"
  shows "\<exists>ImP. compute_ImP Nr Nc Wr Wc dimen = Inr ImP
    \<and> matmul ImP (dimen * n) (dimen * n) False ImP (dimen * n) (dimen * n) False 1 = Inr ImP"
proof -
  let ?ls = "lsdim_of dimen" and ?td = "dimen * n"
  let ?P = "\<lambda>i j. (\<Sum>k < ?ls. mat Nr ?ls i k * mat Wr ?ls j k)
                 + (\<Sum>k < ?ls. mat Nc ?ls i k * mat Wc ?ls j k)"
  from compute_ImP_Inr [OF dimen len, of Nr Wr Wc]
  obtain ImP where ImP: "compute_ImP Nr Nc Wr Wc dimen = Inr ImP" "length ImP = ?td * ?td"
    "\<And>i j. i < ?td \<Longrightarrow> j < ?td \<Longrightarrow> mat ImP ?td i j = (if i = j then 1 else 0) - ?P i j"
    by blast
  have PP: "(\<Sum>m < ?td. ?P i m * ?P m j) = ?P i j" for i j
    by (rule gram_projector2 [where Nr = "mat Nr ?ls" and Wr = "mat Wr ?ls" and Nc = "mat Nc ?ls"
          and Wc = "mat Wc ?ls", OF rr rc cr cc])
  have idem: "(\<Sum>m < ?td. mat ImP ?td i m * mat ImP ?td m j) = mat ImP ?td i j"
    if ij: "i < ?td" "j < ?td" for i j
  proof -
    have "(\<Sum>m < ?td. mat ImP ?td i m * mat ImP ?td m j)
        = (\<Sum>m < ?td. ((if i = m then 1 else 0) - ?P i m) * ((if m = j then 1 else 0) - ?P m j))"
      using ij by (intro sum.cong refl) (simp add: ImP(3))
    also have "\<dots> = (if i = j then 1 else 0) - ?P i j"
      by (rule complement_idempotent [where P = ?P, OF PP ij])
    finally show ?thesis using ImP(3) [OF ij] by simp
  qed
  from matmul_Inr [of False ?td ?td False ?td ?td ImP ImP 1]
  obtain R where R: "matmul ImP ?td ?td False ImP ?td ?td False 1 = Inr R"
    "length R = ?td * ?td"
    "\<And>i j. i < ?td \<Longrightarrow> j < ?td \<Longrightarrow>
        R ! (i * ?td + j) = (\<Sum>m < ?td. ImP ! (i * ?td + m) * ImP ! (m * ?td + j))"
    by auto
  have "R = ImP"
  proof (rule list_eq_matI [OF R(2) ImP(2)])
    fix i j assume ij: "i < ?td" "j < ?td"
    show "R ! (i * ?td + j) = ImP ! (i * ?td + j)"
      using R(3) [OF ij] idem [OF ij] by (simp add: mat_def)
  qed
  then show ?thesis using ImP(1) R(1) by simp
qed

lemma mat_blocks:
  assumes len: "\<And>i. length (f i) = rows * ls" and m: "m < rows * n" and k: "k < ls"
  shows "mat (concat (map f [0..<n])) ls m k = f (m div rows) ! (ls * (m mod rows) + k)"
proof -
  have rows: "0 < rows" using m by (cases rows) simp_all
  have a: "m div rows < n" using m by (simp add: less_mult_imp_div_less mult.commute)
  have "m mod rows < rows" using rows by simp
  then have "m mod rows * ls + k < rows * ls" using k by (rule index_less)
  then have r: "ls * (m mod rows) + k < rows * ls" by (simp add: mult.commute)
  have "m * ls + k = (rows * (m div rows) + m mod rows) * ls + k" by simp
  also have "\<dots> = (m div rows) * (rows * ls) + (ls * (m mod rows) + k)"
    by (simp only: algebra_simps)
  finally have ix: "m * ls + k = (m div rows) * (rows * ls) + (ls * (m mod rows) + k)" .
  show ?thesis
    unfolding mat_def ix using len a r by (rule nth_concat_blocks)
qed

lemma sum_centered:
  fixes n :: nat
  assumes "0 < n"
  shows "(\<Sum>a<n. (f a - (\<Sum>i<n. f i) / real n)) = (0::real)"
  using assms by (simp add: sum_subtractf)

lemma consistent_q_sum:
  "consistent_q Dim corners n q \<Longrightarrow> b < Dim \<Longrightarrow> (\<Sum>a<n. q ! (Dim * a + b)) = 0"
  by (simp add: consistent_q_def)

lemma consistent_q_centered:
  assumes c: "consistent_q Dim corners n q" and b: "b < Dim" and c': "c < Dim"
  shows "(\<Sum>a<n. q ! (Dim * a + b) * (corners ! (Dim * a + c) - M)) = (if b = c then 1 / 2 else 0)"
proof -
  have "(\<Sum>a<n. q ! (Dim * a + b) * (corners ! (Dim * a + c) - M))
      = (\<Sum>a<n. q ! (Dim * a + b) * corners ! (Dim * a + c)) - (\<Sum>a<n. q ! (Dim * a + b)) * M"
    by (simp add: right_diff_distrib sum_subtractf sum_distrib_right)
  then show ?thesis using c b c' by (simp add: consistent_q_def)
qed

lemma sum_mat_cong:
  fixes N :: nat
  assumes "\<And>m. m < N \<Longrightarrow> f m = f' m" "\<And>m. m < N \<Longrightarrow> g m = g' m"
  shows "(\<Sum>m<N. f m * g m) = (\<Sum>m<N. f' m * g' m :: real)"
  by (intro sum.cong refl) (simp add: assms)

lemma ImP_idempotent_2D:
  assumes n: "0 < n" and lc: "2 * n \<le> length corners" and lq: "length q = n * 2"
    and cq: "consistent_q 2 corners n q"
  shows "\<exists>Wr Wc ImP. compute_Wr_2D q = Inr Wr \<and> compute_Wc_2D q = Inr Wc
    \<and> compute_ImP (compute_Nr_2D corners n) (compute_Nc_2D corners n) Wr Wc 2 = Inr ImP
    \<and> matmul ImP (2 * n) (2 * n) False ImP (2 * n) (2 * n) False 1 = Inr ImP"
proof -
  let ?mid = "point_average 2 corners n"
  let ?dx = "\<lambda>a. corners ! (2 * a) - ?mid ! 0" and ?dy = "\<lambda>a. corners ! (2 * a + 1) - ?mid ! 1"
  let ?qx = "\<lambda>a. q ! (2 * a)" and ?qy = "\<lambda>a. q ! (2 * a + 1)"
  let ?Nr = "compute_Nr_2D corners n" and ?Nc = "compute_Nc_2D corners n"
  let ?Wr = "concat (map (\<lambda>i. matentry_2D (1 / real n) (q ! (2 * i + 1)) (1 / real n)
                (- q ! (2 * i))) [0..<n])"
  let ?Wc = "concat (map (\<lambda>i. matentry_2D (2 * q ! (2 * i)) (q ! (2 * i + 1))
                (2 * q ! (2 * i + 1)) (q ! (2 * i))) [0..<n])"
  let ?FNr = "\<lambda>m k. [1, 0, ?dy (m div 2), 0, 1, - ?dx (m div 2)] ! (3 * (m mod 2) + k)"
  let ?FWr = "\<lambda>m k. [1 / real n, 0, ?qy (m div 2), 0, 1 / real n, - ?qx (m div 2)]
                  ! (3 * (m mod 2) + k)"
  let ?FNc = "\<lambda>m k. [?dx (m div 2), 0, ?dy (m div 2), 0, ?dy (m div 2), ?dx (m div 2)]
                  ! (3 * (m mod 2) + k)"
  let ?FWc = "\<lambda>m k. [2 * ?qx (m div 2), 0, ?qy (m div 2), 0, 2 * ?qy (m div 2), ?qx (m div 2)]
                  ! (3 * (m mod 2) + k)"
  have Wr: "compute_Wr_2D q = Inr ?Wr" and Wc: "compute_Wc_2D q = Inr ?Wc"
    using lq by (simp_all add: compute_Wr_2D_def compute_Wc_2D_def Let_def bnd_def check_def)
  have mNr: "mat ?Nr 3 m k = ?FNr m k" if "m < 2 * n" "k < 3" for m k
    unfolding compute_Nr_2D_def Let_def
    by (subst mat_blocks [where rows = 2, OF _ that]) (simp_all add: matentry_2D_def)
  have mNc: "mat ?Nc 3 m k = ?FNc m k" if "m < 2 * n" "k < 3" for m k
    unfolding compute_Nc_2D_def Let_def
    by (subst mat_blocks [where rows = 2, OF _ that]) (simp_all add: matentry_2D_def)
  have mWr: "mat ?Wr 3 m k = ?FWr m k" if "m < 2 * n" "k < 3" for m k
    by (subst mat_blocks [where rows = 2, OF _ that]) (simp_all add: matentry_2D_def)
  have mWc: "mat ?Wc 3 m k = ?FWc m k" if "m < 2 * n" "k < 3" for m k
    by (subst mat_blocks [where rows = 2, OF _ that]) (simp_all add: matentry_2D_def)
  have d0: "(\<Sum>a<n. ?dx a) = 0" "(\<Sum>a<n. ?dy a) = 0"
    using sum_centered [OF n, of "\<lambda>a. corners ! (2 * a)"]
      sum_centered [OF n, of "\<lambda>a. corners ! (2 * a + 1)"]
    by (simp_all add: nth_point_average [OF lc])
  have q0: "(\<Sum>a<n. ?qx a) = 0" "(\<Sum>a<n. ?qy a) = 0"
    using consistent_q_sum [OF cq, of 0] consistent_q_sum [OF cq, of 1] by simp_all
  have qd: "(\<Sum>a<n. ?qx a * ?dx a) = 1 / 2" "(\<Sum>a<n. ?qy a * ?dy a) = 1 / 2"
    "(\<Sum>a<n. ?qx a * ?dy a) = 0" "(\<Sum>a<n. ?qy a * ?dx a) = 0"
    using consistent_q_centered [OF cq, of 0 0 "?mid ! 0"]
      consistent_q_centered [OF cq, of 1 1 "?mid ! 1"]
      consistent_q_centered [OF cq, of 0 1 "?mid ! 1"]
      consistent_q_centered [OF cq, of 1 0 "?mid ! 0"]
    by simp_all
  note g = gram_2D [where Nr = ?FNr and Wr = ?FWr and Nc = ?FNc and Wc = ?FWc,
      OF n d0 q0 qd refl refl refl refl]
  have ls: "lsdim_of 2 = 3" by (simp add: lsdim_of_def)
  have "\<exists>ImP. compute_ImP ?Nr ?Nc ?Wr ?Wc 2 = Inr ImP
    \<and> matmul ImP (2 * n) (2 * n) False ImP (2 * n) (2 * n) False 1 = Inr ImP"
  proof (rule compute_ImP_idempotent)
    show "(2::nat) = 2 \<or> (2::nat) = 3" by simp
    show "length ?Nc = (if (2::nat) = 2 then 6 else 18) * n" by (simp add: length_compute_Nc_2D)
  next
    fix k l assume kl: "k < lsdim_of 2" "l < lsdim_of 2"
    then have kl3: "k < 3" "l < 3" by (simp_all add: ls)
    have "(\<Sum>m<2 * n. mat ?Wr 3 m k * mat ?Nr 3 m l) = (\<Sum>m<2 * n. ?FWr m k * ?FNr m l)"
      by (rule sum_mat_cong) (rule mWr [OF _ kl3(1)] mNr [OF _ kl3(2)], assumption)+
    then show "(\<Sum>m<2 * n. mat ?Wr (lsdim_of 2) m k * mat ?Nr (lsdim_of 2) m l)
        = (if k = l then 1 else 0)"
      unfolding ls using g(1) [OF kl3] by simp
    have "(\<Sum>m<2 * n. mat ?Wr 3 m k * mat ?Nc 3 m l) = (\<Sum>m<2 * n. ?FWr m k * ?FNc m l)"
      by (rule sum_mat_cong) (rule mWr [OF _ kl3(1)] mNc [OF _ kl3(2)], assumption)+
    then show "(\<Sum>m<2 * n. mat ?Wr (lsdim_of 2) m k * mat ?Nc (lsdim_of 2) m l) = 0"
      unfolding ls using g(2) [OF kl3] by simp
    have "(\<Sum>m<2 * n. mat ?Wc 3 m k * mat ?Nr 3 m l) = (\<Sum>m<2 * n. ?FWc m k * ?FNr m l)"
      by (rule sum_mat_cong) (rule mWc [OF _ kl3(1)] mNr [OF _ kl3(2)], assumption)+
    then show "(\<Sum>m<2 * n. mat ?Wc (lsdim_of 2) m k * mat ?Nr (lsdim_of 2) m l) = 0"
      unfolding ls using g(3) [OF kl3] by simp
    have "(\<Sum>m<2 * n. mat ?Wc 3 m k * mat ?Nc 3 m l) = (\<Sum>m<2 * n. ?FWc m k * ?FNc m l)"
      by (rule sum_mat_cong) (rule mWc [OF _ kl3(1)] mNc [OF _ kl3(2)], assumption)+
    then show "(\<Sum>m<2 * n. mat ?Wc (lsdim_of 2) m k * mat ?Nc (lsdim_of 2) m l)
        = (if k = l then 1 else 0)"
      unfolding ls using g(4) [OF kl3] by simp
  qed
  then show ?thesis using Wr Wc by simp
qed

lemma ImP_idempotent_3D:
  assumes n: "0 < n" and lc: "3 * n \<le> length corners" and lq: "length q = n * 3"
    and cq: "consistent_q 3 corners n q"
  shows "\<exists>Wr Wc ImP. compute_Wr_3D q = Inr Wr \<and> compute_Wc_3D q = Inr Wc
    \<and> compute_ImP (compute_Nr_3D corners n) (compute_Nc_3D corners n) Wr Wc 3 = Inr ImP
    \<and> matmul ImP (3 * n) (3 * n) False ImP (3 * n) (3 * n) False 1 = Inr ImP"
proof -
  let ?mid = "point_average 3 corners n"
  let ?dx = "\<lambda>a. corners ! (3 * a) - ?mid ! 0" and ?dy = "\<lambda>a. corners ! (3 * a + 1) - ?mid ! 1"
    and ?dz = "\<lambda>a. corners ! (3 * a + 2) - ?mid ! 2"
  let ?qx = "\<lambda>a. q ! (3 * a)" and ?qy = "\<lambda>a. q ! (3 * a + 1)" and ?qz = "\<lambda>a. q ! (3 * a + 2)"
  let ?Nr = "compute_Nr_3D corners n" and ?Nc = "compute_Nc_3D corners n"
  let ?Wr = "concat (map (\<lambda>i. matentry_3D (1 / real n) (q ! (3 * i + 1)) (- q ! (3 * i + 2))
                (1 / real n) (- q ! (3 * i)) (q ! (3 * i + 2)) (1 / real n) (- q ! (3 * i + 1))
                (q ! (3 * i))) [0..<n])"
  let ?Wc = "concat (map (\<lambda>i. matentry_3D (2 * q ! (3 * i)) (q ! (3 * i + 1)) (q ! (3 * i + 2))
                (2 * q ! (3 * i + 1)) (q ! (3 * i)) (q ! (3 * i + 2))
                (2 * q ! (3 * i + 2)) (q ! (3 * i + 1)) (q ! (3 * i))) [0..<n])"
  let ?FNr = "\<lambda>m k. [1, 0, 0, ?dy (m div 3), 0, - ?dz (m div 3),
         0, 1, 0, - ?dx (m div 3), ?dz (m div 3), 0,
         0, 0, 1, 0, - ?dy (m div 3), ?dx (m div 3)] ! (6 * (m mod 3) + k)"
  let ?FWr = "\<lambda>m k. [1 / real n, 0, 0, ?qy (m div 3), 0, - ?qz (m div 3),
         0, 1 / real n, 0, - ?qx (m div 3), ?qz (m div 3), 0,
         0, 0, 1 / real n, 0, - ?qy (m div 3), ?qx (m div 3)] ! (6 * (m mod 3) + k)"
  let ?FNc = "\<lambda>m k. [?dx (m div 3), 0, 0, ?dy (m div 3), 0, ?dz (m div 3),
         0, ?dy (m div 3), 0, ?dx (m div 3), ?dz (m div 3), 0,
         0, 0, ?dz (m div 3), 0, ?dy (m div 3), ?dx (m div 3)] ! (6 * (m mod 3) + k)"
  let ?FWc = "\<lambda>m k. [2 * ?qx (m div 3), 0, 0, ?qy (m div 3), 0, ?qz (m div 3),
         0, 2 * ?qy (m div 3), 0, ?qx (m div 3), ?qz (m div 3), 0,
         0, 0, 2 * ?qz (m div 3), 0, ?qy (m div 3), ?qx (m div 3)] ! (6 * (m mod 3) + k)"
  have Wr: "compute_Wr_3D q = Inr ?Wr" and Wc: "compute_Wc_3D q = Inr ?Wc"
    using lq by (simp_all add: compute_Wr_3D_def compute_Wc_3D_def Let_def bnd_def check_def)
  have mNr: "mat ?Nr 6 m k = ?FNr m k" if "m < 3 * n" "k < 6" for m k
    unfolding compute_Nr_3D_def Let_def
    by (subst mat_blocks [where rows = 3, OF _ that]) (simp_all add: matentry_3D_def)
  have mNc: "mat ?Nc 6 m k = ?FNc m k" if "m < 3 * n" "k < 6" for m k
    unfolding compute_Nc_3D_def Let_def
    by (subst mat_blocks [where rows = 3, OF _ that]) (simp_all add: matentry_3D_def)
  have mWr: "mat ?Wr 6 m k = ?FWr m k" if "m < 3 * n" "k < 6" for m k
    by (subst mat_blocks [where rows = 3, OF _ that]) (simp_all add: matentry_3D_def)
  have mWc: "mat ?Wc 6 m k = ?FWc m k" if "m < 3 * n" "k < 6" for m k
    by (subst mat_blocks [where rows = 3, OF _ that]) (simp_all add: matentry_3D_def)
  have d0: "(\<Sum>a<n. ?dx a) = 0" "(\<Sum>a<n. ?dy a) = 0" "(\<Sum>a<n. ?dz a) = 0"
    using sum_centered [OF n, of "\<lambda>a. corners ! (3 * a)"]
      sum_centered [OF n, of "\<lambda>a. corners ! (3 * a + 1)"]
      sum_centered [OF n, of "\<lambda>a. corners ! (3 * a + 2)"]
    by (simp_all add: nth_point_average [OF lc])
  have q0: "(\<Sum>a<n. ?qx a) = 0" "(\<Sum>a<n. ?qy a) = 0" "(\<Sum>a<n. ?qz a) = 0"
    using consistent_q_sum [OF cq, of 0] consistent_q_sum [OF cq, of 1]
      consistent_q_sum [OF cq, of 2] by simp_all
  have qd: "(\<Sum>a<n. ?qx a * ?dx a) = 1 / 2" "(\<Sum>a<n. ?qy a * ?dy a) = 1 / 2"
      "(\<Sum>a<n. ?qz a * ?dz a) = 1 / 2"
      "(\<Sum>a<n. ?qx a * ?dy a) = 0" "(\<Sum>a<n. ?qx a * ?dz a) = 0"
      "(\<Sum>a<n. ?qy a * ?dx a) = 0" "(\<Sum>a<n. ?qy a * ?dz a) = 0"
      "(\<Sum>a<n. ?qz a * ?dx a) = 0" "(\<Sum>a<n. ?qz a * ?dy a) = 0"
    using consistent_q_centered [OF cq, of 0 0 "?mid ! 0"]
      consistent_q_centered [OF cq, of 1 1 "?mid ! 1"]
      consistent_q_centered [OF cq, of 2 2 "?mid ! 2"]
      consistent_q_centered [OF cq, of 0 1 "?mid ! 1"]
      consistent_q_centered [OF cq, of 0 2 "?mid ! 2"]
      consistent_q_centered [OF cq, of 1 0 "?mid ! 0"]
      consistent_q_centered [OF cq, of 1 2 "?mid ! 2"]
      consistent_q_centered [OF cq, of 2 0 "?mid ! 0"]
      consistent_q_centered [OF cq, of 2 1 "?mid ! 1"]
    by simp_all
  note g = gram_3D [where Nr = ?FNr and Wr = ?FWr and Nc = ?FNc and Wc = ?FWc,
      OF n d0 q0 qd refl refl refl refl]
  have ls: "lsdim_of 3 = 6" by (simp add: lsdim_of_def)
  have "\<exists>ImP. compute_ImP ?Nr ?Nc ?Wr ?Wc 3 = Inr ImP
    \<and> matmul ImP (3 * n) (3 * n) False ImP (3 * n) (3 * n) False 1 = Inr ImP"
  proof (rule compute_ImP_idempotent)
    show "(3::nat) = 2 \<or> (3::nat) = 3" by simp
    show "length ?Nc = (if (3::nat) = 2 then 6 else 18) * n" by (simp add: length_compute_Nc_3D)
  next
    fix k l assume kl: "k < lsdim_of 3" "l < lsdim_of 3"
    then have kl3: "k < 6" "l < 6" by (simp_all add: ls)
    have "(\<Sum>m<3 * n. mat ?Wr 6 m k * mat ?Nr 6 m l) = (\<Sum>m<3 * n. ?FWr m k * ?FNr m l)"
      by (rule sum_mat_cong) (rule mWr [OF _ kl3(1)] mNr [OF _ kl3(2)], assumption)+
    then show "(\<Sum>m<3 * n. mat ?Wr (lsdim_of 3) m k * mat ?Nr (lsdim_of 3) m l)
        = (if k = l then 1 else 0)"
      unfolding ls using g(1) [OF kl3] by simp
    have "(\<Sum>m<3 * n. mat ?Wr 6 m k * mat ?Nc 6 m l) = (\<Sum>m<3 * n. ?FWr m k * ?FNc m l)"
      by (rule sum_mat_cong) (rule mWr [OF _ kl3(1)] mNc [OF _ kl3(2)], assumption)+
    then show "(\<Sum>m<3 * n. mat ?Wr (lsdim_of 3) m k * mat ?Nc (lsdim_of 3) m l) = 0"
      unfolding ls using g(2) [OF kl3] by simp
    have "(\<Sum>m<3 * n. mat ?Wc 6 m k * mat ?Nr 6 m l) = (\<Sum>m<3 * n. ?FWc m k * ?FNr m l)"
      by (rule sum_mat_cong) (rule mWc [OF _ kl3(1)] mNr [OF _ kl3(2)], assumption)+
    then show "(\<Sum>m<3 * n. mat ?Wc (lsdim_of 3) m k * mat ?Nr (lsdim_of 3) m l) = 0"
      unfolding ls using g(3) [OF kl3] by simp
    have "(\<Sum>m<3 * n. mat ?Wc 6 m k * mat ?Nc 6 m l) = (\<Sum>m<3 * n. ?FWc m k * ?FNc m l)"
      by (rule sum_mat_cong) (rule mWc [OF _ kl3(1)] mNc [OF _ kl3(2)], assumption)+
    then show "(\<Sum>m<3 * n. mat ?Wc (lsdim_of 3) m k * mat ?Nc (lsdim_of 3) m l)
        = (if k = l then 1 else 0)"
      unfolding ls using g(4) [OF kl3] by simp
  qed
  then show ?thesis using Wr Wc by simp
qed

subsection \<open>Triangles and tessellation\<close>

lemma norm_l2_2: "norm_l2 2 (pointdiff 2 p q) = sqrt ((p ! 0 - q ! 0)\<^sup>2 + (p ! 1 - q ! 1)\<^sup>2)"
  by (simp add: norm_l2_def pointdiff_def plc_def upt2 power2_eq_square)

lemma heron_sqrt:
  fixes A1 A2 A3 :: real
  assumes "0 \<le> A1" "0 \<le> A2" "0 \<le> A3"
  shows "(1 / 2 * (sqrt A1 + sqrt A2 + sqrt A3)) * (1 / 2 * (sqrt A1 + sqrt A2 + sqrt A3) - sqrt A1)
       * (1 / 2 * (sqrt A1 + sqrt A2 + sqrt A3) - sqrt A2)
       * (1 / 2 * (sqrt A1 + sqrt A2 + sqrt A3) - sqrt A3)
     = (4 * A1 * A2 - (A1 + A2 - A3)\<^sup>2) / 16"
proof -
  define a b c where "a = sqrt A1" and "b = sqrt A2" and "c = sqrt A3"
  have sq: "a * a = A1" "b * b = A2" "c * c = A3"
    using assms by (simp_all add: a_def b_def c_def)
  have "(1 / 2 * (a + b + c)) * (1 / 2 * (a + b + c) - a) * (1 / 2 * (a + b + c) - b)
       * (1 / 2 * (a + b + c) - c)
      = (((a + b) * (a + b) - c * c) * (c * c - (a - b) * (a - b))) / 16"
    by (simp add: field_simps)
  also have "(a + b) * (a + b) - c * c = 2 * (a * b) + (A1 + A2 - A3)"
    using sq by (simp add: algebra_simps)
  also have "c * c - (a - b) * (a - b) = 2 * (a * b) - (A1 + A2 - A3)"
    using sq by (simp add: algebra_simps)
  also have "(2 * (a * b) + (A1 + A2 - A3)) * (2 * (a * b) - (A1 + A2 - A3))
      = 4 * ((a * a) * (b * b)) - (A1 + A2 - A3)\<^sup>2"
    by (simp add: algebra_simps power2_eq_square)
  finally show ?thesis unfolding sq a_def [symmetric] b_def [symmetric] c_def [symmetric]
    by (simp add: mult.assoc)
qed

lemma lagrange_2D:
  fixes ax ay bx by' :: real
  shows "(4 * (ax\<^sup>2 + ay\<^sup>2) * (bx\<^sup>2 + by'\<^sup>2)
          - ((ax\<^sup>2 + ay\<^sup>2) + (bx\<^sup>2 + by'\<^sup>2) - ((ax + bx)\<^sup>2 + (ay + by')\<^sup>2))\<^sup>2) / 16
       = ((ax * by' - ay * bx) / 2)\<^sup>2"
proof -
  have "4 * (ax\<^sup>2 + ay\<^sup>2) * (bx\<^sup>2 + by'\<^sup>2)
          - ((ax\<^sup>2 + ay\<^sup>2) + (bx\<^sup>2 + by'\<^sup>2) - ((ax + bx)\<^sup>2 + (ay + by')\<^sup>2))\<^sup>2
      = 4 * (ax * by' - ay * bx)\<^sup>2"
    by algebra
  then show ?thesis by (simp add: power_divide)
qed

lemma triarea_2D:
  "triarea 2 c1 c2 c3 = \<bar>cross2 c1 c2 c3\<bar> / 2"
proof -
  define ax ay bx by' where "ax = c2 ! 0 - c1 ! 0" and "ay = c2 ! 1 - c1 ! 1"
    and "bx = c3 ! 0 - c2 ! 0" and "by' = c3 ! 1 - c2 ! 1"
  have c: "(c1 ! 0 - c3 ! 0)\<^sup>2 = (ax + bx)\<^sup>2" "(c1 ! 1 - c3 ! 1)\<^sup>2 = (ay + by')\<^sup>2"
    by (simp_all add: ax_def ay_def bx_def by'_def power2_eq_square algebra_simps)
  have cr: "cross2 c1 c2 c3 = ax * by' - ay * bx"
    by (simp add: cross2_def ax_def ay_def bx_def by'_def algebra_simps)
  have "triarea 2 c1 c2 c3
      = sqrt ((4 * (ax\<^sup>2 + ay\<^sup>2) * (bx\<^sup>2 + by'\<^sup>2)
          - ((ax\<^sup>2 + ay\<^sup>2) + (bx\<^sup>2 + by'\<^sup>2) - ((ax + bx)\<^sup>2 + (ay + by')\<^sup>2))\<^sup>2) / 16)"
    unfolding triarea_def Let_def norm_l2_2 c
      ax_def [symmetric] ay_def [symmetric] bx_def [symmetric] by'_def [symmetric]
    by (subst heron_sqrt) simp_all
  also have "\<dots> = \<bar>(ax * by' - ay * bx) / 2\<bar>" unfolding lagrange_2D by (rule real_sqrt_abs)
  finally show ?thesis by (simp add: cr)
qed

lemma length_tessellate_face: "length (tessellate_face Dim corners n False) = 2 * n"
  by (simp add: tessellate_face_def Let_def length_concat_map_const tessellate_tris_def)

lemma nth_tessellate_face:
  assumes "i < n"
  shows "tessellate_face Dim corners n False ! (2 * i)
      = face_centroid Dim corners n @ take Dim (drop (Dim * i) corners)
        @ pointmean Dim (drop (Dim * i) corners) (drop (Dim * ((i + 1) mod n)) corners)"
    and "tessellate_face Dim corners n False ! (2 * i + 1)
      = face_centroid Dim corners n
        @ pointmean Dim (drop (Dim * i) corners) (drop (Dim * ((i + 1) mod n)) corners)
        @ take Dim (drop (Dim * ((i + 1) mod n)) corners)"
proof -
  let ?f = "tessellate_tris Dim corners n (face_centroid Dim corners n)"
  have len: "length (?f j) = 2" for j by (simp add: tessellate_tris_def Let_def)
  have "concat (map ?f [0..<n]) ! (i * 2 + 0) = ?f i ! 0"
    by (rule nth_concat_blocks [OF len assms]) simp
  then show "tessellate_face Dim corners n False ! (2 * i)
      = face_centroid Dim corners n @ take Dim (drop (Dim * i) corners)
        @ pointmean Dim (drop (Dim * i) corners) (drop (Dim * ((i + 1) mod n)) corners)"
    by (simp add: tessellate_face_def Let_def tessellate_tris_def mult.commute)
  have "concat (map ?f [0..<n]) ! (i * 2 + 1) = ?f i ! 1"
    by (rule nth_concat_blocks [OF len assms]) simp
  then show "tessellate_face Dim corners n False ! (2 * i + 1)
      = face_centroid Dim corners n
        @ pointmean Dim (drop (Dim * i) corners) (drop (Dim * ((i + 1) mod n)) corners)
        @ take Dim (drop (Dim * ((i + 1) mod n)) corners)"
    by (simp add: tessellate_face_def Let_def tessellate_tris_def mult.commute)
qed

lemma face_integral_impl_sum:
  "face_integral_impl Dim corners n cv =
     (\<Sum>i<n. triarea Dim (tessellate_face Dim corners n False ! (2 * i))
                (drop Dim (tessellate_face Dim corners n False ! (2 * i)))
                (drop (2 * Dim) (tessellate_face Dim corners n False ! (2 * i)))
              * (case cv of Some v \<Rightarrow> v ! i | None \<Rightarrow> 1)
            + triarea Dim (tessellate_face Dim corners n False ! (2 * i + 1))
                (drop Dim (tessellate_face Dim corners n False ! (2 * i + 1)))
                (drop (2 * Dim) (tessellate_face Dim corners n False ! (2 * i + 1)))
              * (case cv of Some v \<Rightarrow> v ! ((i + 1) mod n) | None \<Rightarrow> 1))"
  unfolding face_integral_impl_def Let_def
  by (simp add: foldl_mult_sum add.assoc)

lemma length_centroid_2D: "length (centroid_2D pts n) = 2"
  by (simp add: centroid_2D_def split: prod.splits)

lemma cross2_append:
  assumes "length c = 2" "length p = 2" "2 \<le> length q"
  shows "cross2 (c @ p @ q) (drop 2 (c @ p @ q)) (drop 4 (c @ p @ q)) = cross2 c p q"
  using assms by (simp add: cross2_def nth_append)

lemma cross2_midpoint:
  assumes "m ! 0 = (p ! 0 + q ! 0) / 2" "m ! 1 = (p ! 1 + q ! 1) / 2"
  shows "cross2 c p m = cross2 c p q / 2" "cross2 c m q = cross2 c p q / 2"
  unfolding cross2_def assms by (simp_all add: field_simps)

lemma tri_areas_2D:
  assumes i: "i < n" and lc: "2 * n \<le> length corners"
  shows "triarea 2 (tessellate_face 2 corners n False ! (2 * i))
            (drop 2 (tessellate_face 2 corners n False ! (2 * i)))
            (drop (2 * 2) (tessellate_face 2 corners n False ! (2 * i)))
         = \<bar>cross2 (centroid_2D corners n) (corner2 corners i) (corner2 corners ((i + 1) mod n))\<bar> / 4"
    and "triarea 2 (tessellate_face 2 corners n False ! (2 * i + 1))
            (drop 2 (tessellate_face 2 corners n False ! (2 * i + 1)))
            (drop (2 * 2) (tessellate_face 2 corners n False ! (2 * i + 1)))
         = \<bar>cross2 (centroid_2D corners n) (corner2 corners i) (corner2 corners ((i + 1) mod n))\<bar> / 4"
proof -
  let ?j = "(i + 1) mod n"
  let ?c = "centroid_2D corners n"
  let ?p = "take 2 (drop (2 * i) corners)" and ?q = "take 2 (drop (2 * ?j) corners)"
  let ?m = "pointmean 2 (drop (2 * i) corners) (drop (2 * ?j) corners)"
  have j: "?j < n" using i by simp
  have li: "2 * i + 2 \<le> length corners" using i lc by simp
  have lj: "2 * ?j + 2 \<le> length corners" using j lc by simp
  have lp: "length ?p = 2" "length ?q = 2" using li lj by simp_all
  have lm: "length ?m = 2" by (simp add: pointmean_def)
  have p: "?p ! 0 = corners ! (2 * i)" "?p ! 1 = corners ! (2 * i + 1)"
    using li by simp_all
  have q: "?q ! 0 = corners ! (2 * ?j)" "?q ! 1 = corners ! (2 * ?j + 1)"
    using lj by simp_all
  have m: "?m ! 0 = (?p ! 0 + ?q ! 0) / 2" "?m ! 1 = (?p ! 1 + ?q ! 1) / 2"
    using li lj by (simp_all add: pointmean_def field_simps)
  have pc: "cross2 ?c ?p ?q = cross2 ?c (corner2 corners i) (corner2 corners ?j)"
    using p q by (simp add: cross2_def corner2_def)
  have t1: "tessellate_face 2 corners n False ! (2 * i) = ?c @ ?p @ ?m"
    using nth_tessellate_face(1) [OF i, of 2 corners] by (simp add: face_centroid_def)
  have t2: "tessellate_face 2 corners n False ! (2 * i + 1) = ?c @ ?m @ ?q"
    using nth_tessellate_face(2) [OF i, of 2 corners] by (simp add: face_centroid_def)
  have four: "(2::nat) * 2 = 4" by simp
  show "triarea 2 (tessellate_face 2 corners n False ! (2 * i))
            (drop 2 (tessellate_face 2 corners n False ! (2 * i)))
            (drop (2 * 2) (tessellate_face 2 corners n False ! (2 * i)))
         = \<bar>cross2 ?c (corner2 corners i) (corner2 corners ?j)\<bar> / 4"
    unfolding t1 four triarea_2D
      cross2_append [OF length_centroid_2D lp(1) eq_refl [OF lm [symmetric]]]
      cross2_midpoint(1) [OF m] pc
    by simp
  show "triarea 2 (tessellate_face 2 corners n False ! (2 * i + 1))
            (drop 2 (tessellate_face 2 corners n False ! (2 * i + 1)))
            (drop (2 * 2) (tessellate_face 2 corners n False ! (2 * i + 1)))
         = \<bar>cross2 ?c (corner2 corners i) (corner2 corners ?j)\<bar> / 4"
    unfolding t2 four triarea_2D
      cross2_append [OF length_centroid_2D lm eq_refl [OF lp(2) [symmetric]]]
      cross2_midpoint(2) [OF m] pc
    by simp
qed

subsection \<open>Polygons\<close>

lemma sum_cyclic_shift:
  fixes n :: nat
  assumes "0 < n"
  shows "(\<Sum>i<n. g ((i + 1) mod n)) = (\<Sum>i<n. g i :: real)"
proof -
  from assms obtain k where n: "n = Suc k" by (cases n) auto
  have "(\<Sum>i<Suc k. g ((i + 1) mod Suc k)) = (\<Sum>i<k. g ((i + 1) mod Suc k)) + g 0"
    by simp
  also have "(\<Sum>i<k. g ((i + 1) mod Suc k)) = (\<Sum>i<k. g (Suc i))"
    by (intro sum.cong refl) simp
  also have "(\<Sum>i<k. g (Suc i)) + g 0 = (\<Sum>i<Suc k. g i)"
    by (simp only: sum.lessThan_Suc_shift add.commute)
  finally show ?thesis unfolding n .
qed

lemma sum_cyclic_diff:
  fixes n :: nat
  assumes "0 < n"
  shows "(\<Sum>i<n. g ((i + 1) mod n) - g i) = (0::real)"
  using sum_cyclic_shift [OF assms, of g] by (simp add: sum_subtractf)

lemma cyclic_cross_sum:
  fixes x y :: "nat \<Rightarrow> real" and nx :: "nat \<Rightarrow> nat" and n :: nat
  assumes sx: "(\<Sum>i<n. x (nx i)) = (\<Sum>i<n. x i)" and sy: "(\<Sum>i<n. y (nx i)) = (\<Sum>i<n. y i)"
  shows "(\<Sum>i<n. (x i - cx) * (y (nx i) - cy) - (y i - cy) * (x (nx i) - cx))
      = (\<Sum>i<n. x i * y (nx i) - x (nx i) * y i)"
proof -
  have "(x i - cx) * (y (nx i) - cy) - (y i - cy) * (x (nx i) - cx)
      = (x i * y (nx i) - x (nx i) * y i) - cx * y (nx i) + cx * y i + cy * x (nx i) - cy * x i"
    for i
    by (simp add: algebra_simps)
  then have "(\<Sum>i<n. (x i - cx) * (y (nx i) - cy) - (y i - cy) * (x (nx i) - cx))
      = (\<Sum>i<n. x i * y (nx i) - x (nx i) * y i) - cx * (\<Sum>i<n. y (nx i)) + cx * (\<Sum>i<n. y i)
        + cy * (\<Sum>i<n. x (nx i)) - cy * (\<Sum>i<n. x i)"
    by (simp only: sum.distrib sum_subtractf sum_distrib_left)
  then show ?thesis unfolding sx sy by simp
qed

lemma sum_cross2_shoelace:
  fixes n :: nat
  assumes "0 < n"
  shows "(\<Sum>i<n. cross2 c (corner2 corners i) (corner2 corners ((i + 1) mod n)))
      = shoelace2 corners n"
  unfolding cross2_def corner2_def shoelace2_def nth_Cons_0 nth_Cons_Suc One_nat_def
  by (rule cyclic_cross_sum [where x = "\<lambda>i. corners ! (2 * i)" and y = "\<lambda>i. corners ! (2 * i + Suc 0)"
        and nx = "\<lambda>i. (i + Suc 0) mod n"])
    (rule sum_cyclic_shift [OF assms, unfolded One_nat_def])+

lemma element_volume_2D_valid:
  assumes "valid_cell_2D corners n"
  shows "element_volume_2D corners n = shoelace2 corners n / 2"
proof -
  from assms have n: "0 < n" and lc: "2 * n \<le> length corners"
    and star: "\<And>i. i < n \<Longrightarrow> 0 \<le> cross2 (centroid_2D corners n) (corner2 corners i)
                          (corner2 corners ((i + 1) mod n))"
    by (auto simp add: valid_cell_2D_def)
  let ?X = "\<lambda>i. cross2 (centroid_2D corners n) (corner2 corners i) (corner2 corners ((i + 1) mod n))"
  have "element_volume_2D corners n = face_integral_impl 2 corners n None"
    by (simp add: element_volume_2D_def face_integral_def)
  also have "\<dots> = (\<Sum>i<n. \<bar>?X i\<bar> / 4 * 1 + \<bar>?X i\<bar> / 4 * 1)"
    unfolding face_integral_impl_sum
  proof (intro sum.cong refl)
    fix i assume "i \<in> {..<n}"
    then have i: "i < n" by simp
    show "triarea 2 (tessellate_face 2 corners n False ! (2 * i))
           (drop 2 (tessellate_face 2 corners n False ! (2 * i)))
           (drop (2 * 2) (tessellate_face 2 corners n False ! (2 * i)))
          * (case None of None \<Rightarrow> 1 | Some v \<Rightarrow> v ! i)
        + triarea 2 (tessellate_face 2 corners n False ! (2 * i + 1))
           (drop 2 (tessellate_face 2 corners n False ! (2 * i + 1)))
           (drop (2 * 2) (tessellate_face 2 corners n False ! (2 * i + 1)))
          * (case None of None \<Rightarrow> 1 | Some v \<Rightarrow> v ! ((i + 1) mod n))
        = \<bar>?X i\<bar> / 4 * 1 + \<bar>?X i\<bar> / 4 * 1"
      unfolding tri_areas_2D [OF i lc] option.case by (rule refl)
  qed
  also have "\<dots> = (\<Sum>i<n. ?X i / 2)"
  proof (intro sum.cong refl)
    fix i assume "i \<in> {..<n}"
    then have "0 \<le> ?X i" using star by simp
    then have "\<bar>?X i\<bar> = ?X i" by (rule abs_of_nonneg)
    then show "\<bar>?X i\<bar> / 4 * 1 + \<bar>?X i\<bar> / 4 * 1 = ?X i / 2" by simp
  qed
  also have "\<dots> = (\<Sum>i<n. ?X i) / 2" by (simp add: sum_divide_distrib)
  finally show ?thesis unfolding sum_cross2_shoelace [OF n] .
qed

lemma L_update:
  fixes r :: "real list"
  assumes ix: "ix = ac * 2 + d" and ac: "ac < n" and d: "d < 2" and b: "b < 2"
    and len: "ix < length r"
  shows "(\<Sum>a<n. r[ix := y] ! (2 * a + b) * w a)
      = (\<Sum>a<n. r ! (2 * a + b) * w a) + (if d = b then (y - r ! ix) * w ac else 0)"
proof -
  have eq: "(ix = 2 * a + b) = (a = ac \<and> b = d)" for a
    unfolding ix using d b by presburger
  have "r[ix := y] ! (2 * a + b) * w a
      = r ! (2 * a + b) * w a + (if a = ac then (if d = b then (y - r ! ix) * w ac else 0) else 0)"
    for a
    using len eq [of a] by (auto simp add: nth_list_update algebra_simps)
  then have "(\<Sum>a<n. r[ix := y] ! (2 * a + b) * w a)
      = (\<Sum>a<n. r ! (2 * a + b) * w a)
        + (\<Sum>a<n. if a = ac then (if d = b then (y - r ! ix) * w ac else 0) else 0)"
    by (simp only: sum.distrib)
  then show ?thesis using ac by simp
qed

lemma q_step:
  fixes r :: "real list"
  assumes len: "length r = n * 2" and i: "i < n" and j: "j < n" and b: "b < 2"
  shows "length (foldl (\<lambda>result d.
            (let result1 = result[i * 2 + d := result ! (i * 2 + d) + fac * sn ! d]
             in result1[j * 2 + d := result1 ! (j * 2 + d) + fac * sn ! d])) r [0..<2]) = n * 2"
    and "(\<Sum>a<n. foldl (\<lambda>result d.
            (let result1 = result[i * 2 + d := result ! (i * 2 + d) + fac * sn ! d]
             in result1[j * 2 + d := result1 ! (j * 2 + d) + fac * sn ! d])) r [0..<2]
            ! (2 * a + b) * w a)
      = (\<Sum>a<n. r ! (2 * a + b) * w a) + fac * sn ! b * (w i + w j)"
proof -
  define r1 where "r1 = r[i * 2 + 0 := r ! (i * 2 + 0) + fac * sn ! 0]"
  define r2 where "r2 = r1[j * 2 + 0 := r1 ! (j * 2 + 0) + fac * sn ! 0]"
  define r3 where "r3 = r2[i * 2 + 1 := r2 ! (i * 2 + 1) + fac * sn ! 1]"
  define r4 where "r4 = r3[j * 2 + 1 := r3 ! (j * 2 + 1) + fac * sn ! 1]"
  have fold: "foldl (\<lambda>result d.
            (let result1 = result[i * 2 + d := result ! (i * 2 + d) + fac * sn ! d]
             in result1[j * 2 + d := result1 ! (j * 2 + d) + fac * sn ! d])) r [0..<2] = r4"
    unfolding upt2 r4_def r3_def r2_def r1_def by (simp add: Let_def)
  have l: "length r1 = n * 2" "length r2 = n * 2" "length r3 = n * 2" "length r4 = n * 2"
    using len by (simp_all add: r1_def r2_def r3_def r4_def)
  have ii: "i * 2 + 0 < n * 2" "i * 2 + 1 < n * 2" "j * 2 + 0 < n * 2" "j * 2 + 1 < n * 2"
    using i j by simp_all
  let ?L = "\<lambda>r. \<Sum>a<n. r ! (2 * a + b) * w a"
  have s1: "?L r1 = ?L r + (if 0 = b then fac * sn ! 0 * w i else 0)"
    unfolding r1_def
    by (subst L_update [where ac = i and d = 0 and n = n, OF refl i _ b]) (use ii len in simp_all)
  have s2: "?L r2 = ?L r1 + (if 0 = b then fac * sn ! 0 * w j else 0)"
    unfolding r2_def
    by (subst L_update [where ac = j and d = 0 and n = n, OF refl j _ b]) (use ii l in simp_all)
  have s3: "?L r3 = ?L r2 + (if 1 = b then fac * sn ! 1 * w i else 0)"
    unfolding r3_def
    by (subst L_update [where ac = i and d = 1 and n = n, OF refl i _ b]) (use ii l in simp_all)
  have s4: "?L r4 = ?L r3 + (if 1 = b then fac * sn ! 1 * w j else 0)"
    unfolding r4_def
    by (subst L_update [where ac = j and d = 1 and n = n, OF refl j _ b]) (use ii l in simp_all)
  have b01: "b = 0 \<or> b = 1" using b by auto
  show "length (foldl (\<lambda>result d.
            (let result1 = result[i * 2 + d := result ! (i * 2 + d) + fac * sn ! d]
             in result1[j * 2 + d := result1 ! (j * 2 + d) + fac * sn ! d])) r [0..<2]) = n * 2"
    unfolding fold by (rule l(4))
  show "(\<Sum>a<n. foldl (\<lambda>result d.
            (let result1 = result[i * 2 + d := result ! (i * 2 + d) + fac * sn ! d]
             in result1[j * 2 + d := result1 ! (j * 2 + d) + fac * sn ! d])) r [0..<2]
            ! (2 * a + b) * w a)
      = (\<Sum>a<n. r ! (2 * a + b) * w a) + fac * sn ! b * (w i + w j)"
    unfolding fold s4 s3 s2 s1 using b01 by (auto simp add: algebra_simps)
qed

lemma inext_of_mod: "2 \<le> n \<Longrightarrow> inext_of i n = (i + 1) mod n"
  by (simp add: inext_of_def)

lemma compute_q_2D_functional:
  assumes n: "2 \<le> n" and b: "b < 2"
  shows "(\<Sum>a<n. compute_q_2D corners n ! (2 * a + b) * w a)
    = (\<Sum>i<n. 1 / (4 * element_volume_2D corners n)
          * [corners ! (2 * ((i + 1) mod n) + 1) - corners ! (2 * i + 1),
             - (corners ! (2 * ((i + 1) mod n) + 0) - corners ! (2 * i + 0))] ! b
          * (w i + w ((i + 1) mod n)))"
proof -
  define fac where "fac = 1 / (4 * element_volume_2D corners n)"
  define sn where "sn = (\<lambda>i. [corners ! (2 * ((i + 1) mod n) + 1) - corners ! (2 * i + 1),
             - (corners ! (2 * ((i + 1) mod n) + 0) - corners ! (2 * i + 0))])"
  define step where "step = (\<lambda>result i.
           (let inext = inext_of i n;
                scaled_normal = [corners ! (2 * inext + 1) - corners ! (2 * i + 1),
                                 - (corners ! (2 * inext + 0) - corners ! (2 * i + 0))]
            in foldl (\<lambda>result d.
                 (let result1 = result[i * 2 + d := result ! (i * 2 + d) + fac * scaled_normal ! d]
                  in result1[inext * 2 + d := result1 ! (inext * 2 + d) + fac * scaled_normal ! d]))
               result [0..<2]))"
  have q: "compute_q_2D corners n = foldl step (replicate (n * 2) 0) [0..<n]"
    unfolding compute_q_2D_def step_def fac_def Let_def ..
  have step_eq: "step r i = foldl (\<lambda>result d.
            (let result1 = result[i * 2 + d := result ! (i * 2 + d) + fac * sn i ! d]
             in result1[((i + 1) mod n) * 2 + d
                  := result1 ! (((i + 1) mod n) * 2 + d) + fac * sn i ! d])) r [0..<2]" for r i
    unfolding step_def sn_def Let_def inext_of_mod [OF n] ..
  have inv: "length (foldl step (replicate (n * 2) 0) [0..<m]) = n * 2
      \<and> (\<Sum>a<n. foldl step (replicate (n * 2) 0) [0..<m] ! (2 * a + b) * w a)
          = (\<Sum>i<m. fac * sn i ! b * (w i + w ((i + 1) mod n)))" if "m \<le> n" for m
    using that
  proof (induction m)
    case 0
    have "replicate (n * 2) (0::real) ! (2 * a + b) = 0" if "a < n" for a
      using that b by simp
    then show ?case by simp
  next
    case (Suc m)
    then have m: "m < n" and IH: "length (foldl step (replicate (n * 2) 0) [0..<m]) = n * 2"
      "(\<Sum>a<n. foldl step (replicate (n * 2) 0) [0..<m] ! (2 * a + b) * w a)
          = (\<Sum>i<m. fac * sn i ! b * (w i + w ((i + 1) mod n)))"
      by simp_all
    have j: "(m + 1) mod n < n" using m by simp
    have f: "foldl step (replicate (n * 2) 0) [0..<Suc m]
        = step (foldl step (replicate (n * 2) 0) [0..<m]) m" by simp
    note s1 = q_step(1) [OF IH(1) m j b, where fac = fac and sn = "sn m", folded step_eq]
    note s2 = q_step(2) [OF IH(1) m j b, where fac = fac and sn = "sn m" and w = w,
        folded step_eq]
    show ?case
      unfolding f using s1 s2 IH(2) by simp
  qed
  show ?thesis
    using inv [of n] unfolding q fac_def sn_def by simp
qed

lemma cyclic_identities:
  fixes x y :: "nat \<Rightarrow> real" and nx :: "nat \<Rightarrow> nat" and n :: nat
  assumes sh: "\<And>g :: nat \<Rightarrow> real. (\<Sum>i<n. g (nx i)) = (\<Sum>i<n. g i)"
  shows "(\<Sum>i<n. (y (nx i) - y i) * (x i + x (nx i))) = (\<Sum>i<n. x i * y (nx i) - x (nx i) * y i)"
    and "(\<Sum>i<n. - (x (nx i) - x i) * (y i + y (nx i))) = (\<Sum>i<n. x i * y (nx i) - x (nx i) * y i)"
    and "(\<Sum>i<n. (y (nx i) - y i) * (y i + y (nx i))) = 0"
    and "(\<Sum>i<n. - (x (nx i) - x i) * (x i + x (nx i))) = 0"
    and "(\<Sum>i<n. (y (nx i) - y i) * (1 + 1)) = 0"
proof -
  have d: "(\<Sum>i<n. g (nx i) - g i) = 0" for g :: "nat \<Rightarrow> real"
    using sh [of g] by (simp add: sum_subtractf)
  have "(y (nx i) - y i) * (x i + x (nx i))
      = (x i * y (nx i) - x (nx i) * y i) + (x (nx i) * y (nx i) - x i * y i)" for i
    by (simp add: algebra_simps)
  then show "(\<Sum>i<n. (y (nx i) - y i) * (x i + x (nx i))) = (\<Sum>i<n. x i * y (nx i) - x (nx i) * y i)"
    using d [of "\<lambda>i. x i * y i"] by (simp add: sum.distrib)
  have "- (x (nx i) - x i) * (y i + y (nx i))
      = (x i * y (nx i) - x (nx i) * y i) - (x (nx i) * y (nx i) - x i * y i)" for i
    by (simp add: algebra_simps)
  then show "(\<Sum>i<n. - (x (nx i) - x i) * (y i + y (nx i)))
      = (\<Sum>i<n. x i * y (nx i) - x (nx i) * y i)"
    using d [of "\<lambda>i. x i * y i"] by (simp add: sum_subtractf)
  have "(y (nx i) - y i) * (y i + y (nx i)) = y (nx i) * y (nx i) - y i * y i" for i
    by (simp add: algebra_simps)
  then show "(\<Sum>i<n. (y (nx i) - y i) * (y i + y (nx i))) = 0"
    using d [of "\<lambda>i. y i * y i"] by simp
  have "- (x (nx i) - x i) * (x i + x (nx i)) = - (x (nx i) * x (nx i) - x i * x i)" for i
    by (simp add: algebra_simps)
  then show "(\<Sum>i<n. - (x (nx i) - x i) * (x i + x (nx i))) = 0"
    using sh [of "\<lambda>i. x i * x i"] by (simp add: sum_subtractf)
  show "(\<Sum>i<n. (y (nx i) - y i) * (1 + 1)) = 0"
    unfolding sum_distrib_right [symmetric] d by simp
qed

lemma compute_q_2D_consistent:
  assumes "valid_cell_2D corners n"
  shows "consistent_q 2 corners n (compute_q_2D corners n)"
proof -
  from assms have n3: "3 \<le> n" and pos: "0 < shoelace2 corners n"
    by (simp_all add: valid_cell_2D_def)
  have n: "2 \<le> n" "0 < n" using n3 by simp_all
  define x where "x = (\<lambda>i. corners ! (2 * i))"
  define y where "y = (\<lambda>i. corners ! (2 * i + 1))"
  define nx where "nx = (\<lambda>i. (i + 1) mod n)"
  define A where "A = shoelace2 corners n"
  define fac where "fac = 1 / (4 * element_volume_2D corners n)"
  define q where "q = compute_q_2D corners n"
  have fac: "fac * A = 1 / 2"
    unfolding fac_def element_volume_2D_valid [OF assms] A_def using pos
    by (simp add: field_simps)
  have sh: "\<And>g :: nat \<Rightarrow> real. (\<Sum>i<n. g (nx i)) = (\<Sum>i<n. g i)"
    unfolding nx_def by (rule sum_cyclic_shift [OF n(2)])
  note cyc = cyclic_identities [where n = n and nx = nx, OF sh]
  have A': "(\<Sum>i<n. x i * y (nx i) - x (nx i) * y i) = A"
    unfolding A_def shoelace2_def x_def y_def nx_def by simp
  have F0: "(\<Sum>a<n. q ! (2 * a + 0) * w a)
      = fac * (\<Sum>i<n. (y (nx i) - y i) * (w i + w (nx i)))" for w
    using compute_q_2D_functional [OF n(1), of 0 corners w]
    unfolding q_def fac_def x_def y_def nx_def sum_distrib_left
    by (simp add: mult.assoc)
  have F1: "(\<Sum>a<n. q ! (2 * a + 1) * w a)
      = fac * (\<Sum>i<n. - (x (nx i) - x i) * (w i + w (nx i)))" for w
    using compute_q_2D_functional [OF n(1), of 1 corners w]
    unfolding q_def fac_def x_def y_def nx_def sum_distrib_left
    by (simp add: mult.assoc)
  have neg: "(\<Sum>i<n. - (x (nx i) - x i) * (1 + 1)) = 0"
  proof -
    have "(\<Sum>i<n. - (x (nx i) - x i) * (1 + 1)) = - (\<Sum>i<n. (x (nx i) - x i) * (1 + 1))"
      unfolding sum_negf [symmetric] by (rule sum.cong) simp_all
    then show ?thesis unfolding cyc(5) [where y = x] by simp
  qed
  have S0: "(\<Sum>a<n. q ! (2 * a + 0)) = 0"
    using F0 [of "\<lambda>_. 1"] unfolding cyc(5) [where y = y] by simp
  have S1: "(\<Sum>a<n. q ! (2 * a + 1)) = 0"
    using F1 [of "\<lambda>_. 1"] unfolding neg by simp
  have M00: "(\<Sum>a<n. q ! (2 * a + 0) * corners ! (2 * a + 0)) = 1 / 2"
    using F0 [of x] unfolding cyc(1) [where x = x and y = y] A' fac unfolding x_def by simp
  have M01: "(\<Sum>a<n. q ! (2 * a + 0) * corners ! (2 * a + 1)) = 0"
    using F0 [of y] unfolding cyc(3) [where y = y] unfolding y_def by simp
  have M10: "(\<Sum>a<n. q ! (2 * a + 1) * corners ! (2 * a + 0)) = 0"
    using F1 [of x] unfolding cyc(4) [where x = x] unfolding x_def by simp
  have M11: "(\<Sum>a<n. q ! (2 * a + 1) * corners ! (2 * a + 1)) = 1 / 2"
    using F1 [of y] unfolding cyc(2) [where x = x and y = y] A' fac unfolding y_def by simp
  have b2: "b = 0 \<or> b = 1" if "b < 2" for b :: nat using that by auto
  show ?thesis
    unfolding consistent_q_def q_def [symmetric]
  proof (intro conjI allI impI)
    fix b :: nat assume "b < 2"
    with b2 [of b] S0 S1 show "(\<Sum>a<n. q ! (2 * a + b)) = 0" by auto
  next
    fix b c :: nat assume "b < 2" "c < 2"
    with b2 [of b] b2 [of c] M00 M01 M10 M11
    show "(\<Sum>a<n. q ! (2 * a + b) * corners ! (2 * a + c)) = (if b = c then 1 / 2 else 0)"
      by auto
  qed
qed

subsection \<open>Example cells\<close>

lemma upt4: "[0..<4] = [0, 1, 2, 3]"
  by (simp add: upt_rec)

lemma list_update_Cons_numeral:
  "(x # xs)[numeral v := y] = x # xs[numeral v - 1 := y]"
  by (simp add: numeral_eq_Suc)

lemma replicate_numeral:
  "replicate (numeral v) x = x # replicate (numeral v - 1) x"
  by (simp add: numeral_eq_Suc)

lemma sum_lessThan_4: "(\<Sum>i<(4::nat). f i) = (f 0 + f 1 + f 2 + f 3 :: real)"
  by (simp add: eval_nat_numeral)

lemma less4_cases: "k < 4 \<Longrightarrow> (k = 0 \<or> k = 1 \<or> k = 2 \<or> k = (3::nat))"
  by auto

lemma trapezoid_centroid: "centroid_2D [0, 0, 2, 0, 1, 1, 0, 1] 4 = [7 / 9, 4 / 9]"
  by (simp add: centroid_2D_def centroid_2D_step_def inext_of_def upt4)

lemma trapezoid_valid: "valid_cell_2D [0, 0, 2, 0, 1, 1, 0, 1] 4"
  unfolding valid_cell_2D_def shoelace2_def sum_lessThan_4 trapezoid_centroid
  by (auto dest!: less4_cases simp add: cross2_def corner2_def)

lemma element_volume_2D_fan:
  assumes lc: "2 * n \<le> length corners"
  shows "element_volume_2D corners n
      = (\<Sum>i<n. \<bar>cross2 (centroid_2D corners n) (corner2 corners i)
                    (corner2 corners ((i + 1) mod n))\<bar>) / 2"
proof -
  let ?X = "\<lambda>i. cross2 (centroid_2D corners n) (corner2 corners i) (corner2 corners ((i + 1) mod n))"
  have "element_volume_2D corners n = face_integral_impl 2 corners n None"
    by (simp add: element_volume_2D_def face_integral_def)
  also have "\<dots> = (\<Sum>i<n. \<bar>?X i\<bar> / 4 * 1 + \<bar>?X i\<bar> / 4 * 1)"
    unfolding face_integral_impl_sum
  proof (intro sum.cong refl)
    fix i assume "i \<in> {..<n}"
    then have i: "i < n" by simp
    show "triarea 2 (tessellate_face 2 corners n False ! (2 * i))
           (drop 2 (tessellate_face 2 corners n False ! (2 * i)))
           (drop (2 * 2) (tessellate_face 2 corners n False ! (2 * i)))
          * (case None of None \<Rightarrow> 1 | Some v \<Rightarrow> v ! i)
        + triarea 2 (tessellate_face 2 corners n False ! (2 * i + 1))
           (drop 2 (tessellate_face 2 corners n False ! (2 * i + 1)))
           (drop (2 * 2) (tessellate_face 2 corners n False ! (2 * i + 1)))
          * (case None of None \<Rightarrow> 1 | Some v \<Rightarrow> v ! ((i + 1) mod n))
        = \<bar>?X i\<bar> / 4 * 1 + \<bar>?X i\<bar> / 4 * 1"
      unfolding tri_areas_2D [OF i lc] option.case by (rule refl)
  qed
  also have "\<dots> = (\<Sum>i<n. \<bar>?X i\<bar> / 2)"
    by (intro sum.cong refl) simp
  also have "\<dots> = (\<Sum>i<n. \<bar>?X i\<bar>) / 2" by (simp add: sum_divide_distrib)
  finally show ?thesis .
qed

lemma dart_centroid: "centroid_2D [0, 0, 2, 3, 4, 0, 2, 4] 4 = [2, 7 / 3]"
  by (simp add: centroid_2D_def centroid_2D_step_def inext_of_def upt4)

lemma dart_area: "element_volume_2D [0, 0, 2, 3, 4, 0, 2, 4] 4 = 14 / 3"
  by (simp add: element_volume_2D_fan sum_lessThan_4 dart_centroid cross2_def corner2_def)

lemma dart_q:
  "compute_q_2D [0, 0, 2, 3, 4, 0, 2, 4] 4 = [- 3 / 56, 0, 0, - 3 / 14, 3 / 56, 0, 0, 3 / 14]"
  by (simp add: compute_q_2D_def dart_area Let_def inext_of_def upt4 upt2
      list_update_Cons_numeral replicate_numeral)

text \<open>
  The tetrahedron with the corners (1, 0, 0), (0, 1, 0), (0, 0, 1/2) and the origin has the
  volume 1/12; the determinant 1/2 is truncated to 0 by the integer \<open>abs\<close>.
\<close>

lemma tetrahedron_volume_truncates:
  "tetrahedron_volume [1, 0, 0] [0, 1, 0] [0, 0, 1 / 2] [0, 0, 0] = 0"
  by code_simp

subsection \<open>Triangles and corners\<close>

lemma block_index_iff:
  fixes Dim :: nat
  assumes "d < Dim"
  shows "(Dim * p \<le> Dim * a + d \<and> Dim * a + d < Dim * p + j \<and> j \<le> Dim) \<longleftrightarrow> (a = p \<and> d < j \<and> j \<le> Dim)"
proof (cases "a = p")
  case True
  then show ?thesis by simp
next
  case False
  then consider "a < p" | "p < a" by linarith
  then show ?thesis
  proof cases
    case 1
    then have "Dim * (a + 1) \<le> Dim * p" by (intro mult_le_mono) simp_all
    then show ?thesis using assms False by (simp add: algebra_simps)
  next
    case 2
    then have "Dim * (p + 1) \<le> Dim * a" by (intro mult_le_mono) simp_all
    then show ?thesis using assms False by (simp add: algebra_simps)
  qed
qed

lemma scatter_inner:
  fixes r :: "real list"
  assumes "Dim * p + Dim \<le> length r" "j \<le> Dim"
  shows "length (foldl (\<lambda>r d. r[Dim * p + d := r ! (Dim * p + d) + w d]) r [0..<j]) = length r
    \<and> (\<forall>k. foldl (\<lambda>r d. r[Dim * p + d := r ! (Dim * p + d) + w d]) r [0..<j] ! k
          = (if Dim * p \<le> k \<and> k < Dim * p + j then r ! k + w (k - Dim * p) else r ! k))"
  using assms(2)
proof (induction j)
  case 0
  then show ?case by simp
next
  case (Suc j)
  then have IH: "length (foldl (\<lambda>r d. r[Dim * p + d := r ! (Dim * p + d) + w d]) r [0..<j]) = length r"
    "\<And>k. foldl (\<lambda>r d. r[Dim * p + d := r ! (Dim * p + d) + w d]) r [0..<j] ! k
          = (if Dim * p \<le> k \<and> k < Dim * p + j then r ! k + w (k - Dim * p) else r ! k)"
    and j: "j < Dim"
    by simp_all
  have in_range: "Dim * p + j < length r" using assms(1) j by simp
  show ?case
    using in_range by (auto simp add: IH nth_list_update)
qed

lemma scatter_nested:
  fixes r :: "real list"
  assumes rng: "\<And>c. c < m \<Longrightarrow> Dim * node c + Dim \<le> length r" and d: "d < Dim"
  shows "length (foldl (\<lambda>r c. foldl (\<lambda>r d. r[Dim * node c + d := r ! (Dim * node c + d) + v c d])
                           r [0..<Dim]) r [0..<m]) = length r"
    and "foldl (\<lambda>r c. foldl (\<lambda>r d. r[Dim * node c + d := r ! (Dim * node c + d) + v c d])
                           r [0..<Dim]) r [0..<m] ! (Dim * a + d)
         = r ! (Dim * a + d) + (\<Sum>c<m. if node c = a then v c d else 0)"
proof -
  let ?F = "\<lambda>m. foldl (\<lambda>r c. foldl (\<lambda>r d. r[Dim * node c + d := r ! (Dim * node c + d) + v c d])
                           r [0..<Dim]) r [0..<m]"
  have "length (?F m) = length r
      \<and> ?F m ! (Dim * a + d) = r ! (Dim * a + d) + (\<Sum>c<m. if node c = a then v c d else 0)"
    using rng
  proof (induction m)
    case 0
    then show ?case by simp
  next
    case (Suc m)
    then have IH: "length (?F m) = length r"
      "?F m ! (Dim * a + d) = r ! (Dim * a + d) + (\<Sum>c<m. if node c = a then v c d else 0)"
      and r: "Dim * node m + Dim \<le> length (?F m)"
      by simp_all
    note inner = scatter_inner [OF r order_refl, where w = "v m"]
    have step: "?F (Suc m) = foldl (\<lambda>r d. r[Dim * node m + d := r ! (Dim * node m + d) + v m d])
        (?F m) [0..<Dim]" by simp
    have "Dim * node m \<le> Dim * a + d \<and> Dim * a + d < Dim * node m + Dim \<longleftrightarrow> a = node m"
      using block_index_iff [OF d, of "node m" a Dim] d by simp
    then show ?case
      unfolding step using inner IH by auto
  qed
  then show "length (?F m) = length r"
    and "?F m ! (Dim * a + d) = r ! (Dim * a + d) + (\<Sum>c<m. if node c = a then v c d else 0)"
    by simp_all
qed

lemma prev_tri_next:
  assumes "i < n"
  shows "prev_tri n ((i + 1) mod n) = 2 * i + 1"
proof (cases "i + 1 = n")
  case True
  then show ?thesis using assms by (simp add: prev_tri_def)
next
  case False
  then have "(i + 1) mod n = i + 1" using assms by simp
  moreover have "(2 * (i + 1) + 2 * n - 1) mod (2 * n) = (2 * i + 1 + 2 * n) mod (2 * n)"
    by simp
  moreover have "(2 * i + 1 + 2 * n) mod (2 * n) = (2 * i + 1) mod (2 * n)"
    by (rule mod_add_self2)
  moreover have "(2 * i + 1) mod (2 * n) = 2 * i + 1"
    using assms by (intro mod_less) arith
  ultimately show ?thesis unfolding prev_tri_def by (simp only:)
qed

lemma sum_next_corner:
  fixes n :: nat and X :: "nat \<Rightarrow> real"
  assumes "0 < n"
  shows "(\<Sum>i<n. X (2 * i + 1) * w ((i + 1) mod n)) = (\<Sum>c<n. X (prev_tri n c) * w c)"
proof -
  have "(\<Sum>i<n. X (2 * i + 1) * w ((i + 1) mod n))
      = (\<Sum>i<n. X (prev_tri n ((i + 1) mod n)) * w ((i + 1) mod n))"
  proof (rule sum.cong)
    fix i assume "i \<in> {..<n}"
    then have "i < n" by simp
    from prev_tri_next [OF this]
    show "X (2 * i + 1) * w ((i + 1) mod n)
        = X (prev_tri n ((i + 1) mod n)) * w ((i + 1) mod n)"
      by (simp only:)
  qed simp
  also have "\<dots> = (\<Sum>c<n. X (prev_tri n c) * w c)"
    by (rule sum_cyclic_shift [OF assms, of "\<lambda>c. X (prev_tri n c) * w c"])
  finally show ?thesis .
qed

lemma sum_corner_pairs:
  fixes n :: nat and X :: "nat \<Rightarrow> real"
  assumes a: "a < n"
  shows "(\<Sum>k<2 * n. if (k div 2 + k mod 2) mod n = a then X k else 0)
      = X (2 * a) + X (prev_tri n a)"
proof -
  have n: "0 < n" using a by simp
  have "(\<Sum>k<2 * n. if (k div 2 + k mod 2) mod n = a then X k else 0)
      = (\<Sum>i<n. (if i = a then X (2 * i) else 0)
                + X (2 * i + 1) * (if (i + 1) mod n = a then 1 else 0))"
    unfolding sum_pairs
  proof (rule sum.cong)
    fix i assume "i \<in> {..<n}"
    then have i: "i mod n = i" by simp
    have e: "(2 * i) div 2 + (2 * i) mod 2 = i" "(2 * i + 1) div 2 + (2 * i + 1) mod 2 = i + 1"
      by presburger+
    show "(if ((2 * i) div 2 + (2 * i) mod 2) mod n = a then X (2 * i) else 0)
        + (if ((2 * i + 1) div 2 + (2 * i + 1) mod 2) mod n = a then X (2 * i + 1) else 0)
        = (if i = a then X (2 * i) else 0)
          + X (2 * i + 1) * (if (i + 1) mod n = a then 1 else 0)"
      unfolding e i by simp
  qed simp
  also have "\<dots> = (\<Sum>i<n. if i = a then X (2 * i) else 0)
      + (\<Sum>i<n. X (2 * i + 1) * (if (i + 1) mod n = a then 1 else 0))"
    by (rule sum.distrib)
  also have "(\<Sum>i<n. if i = a then X (2 * i) else 0) = X (2 * a)"
    using a by simp
  also have "(\<Sum>i<n. X (2 * i + 1) * (if (i + 1) mod n = a then 1 else 0))
      = (\<Sum>c<n. X (prev_tri n c) * (if c = a then 1 else 0))"
    by (rule sum_next_corner [OF n, of X "\<lambda>c. if c = a then 1 else 0"])
  also have "\<dots> = X (prev_tri n a)"
    by (rule sum_delta_right [OF a])
  finally show ?thesis .
qed

lemma face_integral_impl_corners:
  assumes "0 < n"
  shows "face_integral_impl Dim corners n (Some cv)
      = (\<Sum>c<n. (tri_area Dim (tessellate_face Dim corners n False) (2 * c)
                 + tri_area Dim (tessellate_face Dim corners n False) (prev_tri n c)) * cv ! c)"
proof -
  let ?A = "tri_area Dim (tessellate_face Dim corners n False)"
  have "face_integral_impl Dim corners n (Some cv)
      = (\<Sum>i<n. ?A (2 * i) * cv ! i + ?A (2 * i + 1) * cv ! ((i + 1) mod n))"
    unfolding face_integral_impl_sum tri_area_def by simp
  also have "\<dots> = (\<Sum>i<n. ?A (2 * i) * cv ! i) + (\<Sum>i<n. ?A (2 * i + 1) * cv ! ((i + 1) mod n))"
    by (rule sum.distrib)
  also have "(\<Sum>i<n. ?A (2 * i + 1) * cv ! ((i + 1) mod n)) = (\<Sum>c<n. ?A (prev_tri n c) * cv ! c)"
    by (rule sum_next_corner [OF assms, of ?A "\<lambda>c. cv ! c"])
  finally show ?thesis by (simp only: distrib_right sum.distrib)
qed

lemma compute_bodyforce_2D_nth:
  assumes a: "a < n" and d: "d < 2" and len: "2 * n \<le> length target"
  shows "compute_bodyforce_2D points cell_corners n bforce target ! (2 * a + d)
      = target ! (2 * a + d)
        + bforce ! d
          * (tri_area 2 (tessellate_face 2 (pick_points 2 points cell_corners n) n False) (2 * a)
             + tri_area 2 (tessellate_face 2 (pick_points 2 points cell_corners n) n False)
                 (prev_tri n a))"
proof -
  let ?A = "tri_area 2 (tessellate_face 2 (pick_points 2 points cell_corners n) n False)"
  have A: "?A c = triarea 2 (tessellate_face 2 (pick_points 2 points cell_corners n) n False ! c)
      (drop 2 (tessellate_face 2 (pick_points 2 points cell_corners n) n False ! c))
      (drop 4 (tessellate_face 2 (pick_points 2 points cell_corners n) n False ! c))" for c
    by (simp add: tri_area_def)
  have rng: "2 * ((c div 2 + c mod 2) mod n) + 2 \<le> length target" if "c < 2 * n" for c
  proof -
    have "(c div 2 + c mod 2) mod n < n" using a by simp
    then show ?thesis using len by simp
  qed
  have s1: "compute_bodyforce_2D points cell_corners n bforce target
      = foldl (\<lambda>r c. foldl (\<lambda>r d. r[2 * ((c div 2 + c mod 2) mod n) + d
                 := r ! (2 * ((c div 2 + c mod 2) mod n) + d) + bforce ! d * ?A c]) r [0..<2])
          target [0..<2 * n]"
    unfolding compute_bodyforce_2D_def Let_def A ..
  have s2: "foldl (\<lambda>r c. foldl (\<lambda>r d. r[2 * ((c div 2 + c mod 2) mod n) + d
                 := r ! (2 * ((c div 2 + c mod 2) mod n) + d) + bforce ! d * ?A c]) r [0..<2])
          target [0..<2 * n] ! (2 * a + d)
      = target ! (2 * a + d)
        + (\<Sum>c<2 * n. if (c div 2 + c mod 2) mod n = a then bforce ! d * ?A c else 0)"
    by (rule scatter_nested(2) [OF rng d])
  have s3: "(\<Sum>c<2 * n. if (c div 2 + c mod 2) mod n = a then bforce ! d * ?A c else 0)
      = bforce ! d * ?A (2 * a) + bforce ! d * ?A (prev_tri n a)"
    by (rule sum_corner_pairs [OF a, where X = "\<lambda>c. bforce ! d * ?A c"])
  show ?thesis
    unfolding s1 s2 s3 by (simp only: distrib_left)
qed


lemma prev_tri_eq:
  "0 < n \<Longrightarrow> prev_tri n 0 = 2 * n - 1"
  "0 < c \<Longrightarrow> c < n \<Longrightarrow> prev_tri n c = 2 * c - 1"
proof -
  show "0 < n \<Longrightarrow> prev_tri n 0 = 2 * n - 1" by (simp add: prev_tri_def)
  assume c: "0 < c" "c < n"
  then have "2 * c + 2 * n - 1 = (2 * c - 1) + 2 * n" by simp
  moreover have "((2 * c - 1) + 2 * n) mod (2 * n) = (2 * c - 1) mod (2 * n)"
    by (rule mod_add_self2)
  moreover have "(2 * c - 1) mod (2 * n) = 2 * c - 1"
    using c by (intro mod_less) arith
  ultimately show "prev_tri n c = 2 * c - 1" unfolding prev_tri_def by (simp only:)
qed

lemma foldl_add_nth:
  fixes b :: "real list"
  assumes "\<And>r f. f < m \<Longrightarrow> length r = length b
    \<Longrightarrow> length (G r f) = length b \<and> G r f ! k = r ! k + S f"
  shows "length (foldl G b [0..<m]) = length b
    \<and> foldl G b [0..<m] ! k = b ! k + (\<Sum>f<m. S f)"
  using assms
proof (induction m)
  case 0
  then show ?case by simp
next
  case (Suc m)
  then have IH: "length (foldl G b [0..<m]) = length b"
    "foldl G b [0..<m] ! k = b ! k + (\<Sum>f<m. S f)"
    by simp_all
  from Suc.prems [of m "foldl G b [0..<m]"] IH(1)
  have "length (G (foldl G b [0..<m]) m) = length b"
    "G (foldl G b [0..<m]) m ! k = foldl G b [0..<m] ! k + S m"
    by simp_all
  then show ?case using IH by simp
qed

lemma compute_bodyforce_3D_nth:
  assumes d: "d < 3"
    and rng: "\<And>f c. f < num_faces \<Longrightarrow> c < num_face_corners ! f
      \<Longrightarrow> 3 * face_corners ! (face_offset num_face_corners f + c) + 3 \<le> length b_global"
  shows "compute_bodyforce_3D points face_corners num_face_corners num_faces centroid bforce
           b_global ! (3 * a + d)
      = b_global ! (3 * a + d)
        + (\<Sum>f<num_faces. \<Sum>c<num_face_corners ! f.
             if face_corners ! (face_offset num_face_corners f + c) = a
             then (tri_volume (tessellate_face 3
                      (pick_points 3 points (drop (face_offset num_face_corners f) face_corners)
                         (num_face_corners ! f)) (num_face_corners ! f) False) centroid (2 * c)
                   + tri_volume (tessellate_face 3
                      (pick_points 3 points (drop (face_offset num_face_corners f) face_corners)
                         (num_face_corners ! f)) (num_face_corners ! f) False) centroid
                      (prev_tri (num_face_corners ! f) c)) * bforce ! d
             else 0)"
proof -
  let ?tris = "\<lambda>f. tessellate_face 3
      (pick_points 3 points (drop (face_offset num_face_corners f) face_corners)
         (num_face_corners ! f)) (num_face_corners ! f) False"
  let ?V = "\<lambda>f. tri_volume (?tris f) centroid"
  let ?node = "\<lambda>f c. face_corners ! (face_offset num_face_corners f + c)"
  let ?G = "\<lambda>b_global f.
        (let fcorner_start = face_offset num_face_corners f;
             nfc = num_face_corners ! f;
             fpts = pick_points 3 points (drop fcorner_start face_corners) nfc;
             tris = tessellate_face 3 fpts (length fpts div 3) False
         in foldl (\<lambda>b_global c.
              (let t1 = tris ! (2 * c);
                   t2 = (if c = 0 then last tris else tris ! (2 * c - 1));
                   vol1 = tetrahedron_volume t1 (drop 3 t1) (drop 6 t1) centroid;
                   vol2 = tetrahedron_volume t2 (drop 3 t2) (drop 6 t2) centroid
               in foldl (\<lambda>b_global d.
                    (let ix = 3 * face_corners ! (fcorner_start + c) + d
                     in b_global[ix := b_global ! ix + (vol1 + vol2) * bforce ! d]))
                  b_global [0..<3]))
            b_global [0..<nfc])"
  have def: "compute_bodyforce_3D points face_corners num_face_corners num_faces centroid bforce
      b_global = foldl ?G b_global [0..<num_faces]"
    unfolding compute_bodyforce_3D_def ..
  have face: "length (?G r f) = length b_global
      \<and> ?G r f ! (3 * a + d) = r ! (3 * a + d)
          + (\<Sum>c<num_face_corners ! f. if ?node f c = a
               then (?V f (2 * c) + ?V f (prev_tri (num_face_corners ! f) c)) * bforce ! d else 0)"
    if f: "f < num_faces" and len: "length r = length b_global" for r f
  proof -
    let ?n = "num_face_corners ! f"
    have lt: "length (?tris f) = 2 * ?n" by (rule length_tessellate_face)
    have t2: "(if c = 0 then last (?tris f) else ?tris f ! (2 * c - 1))
        = ?tris f ! prev_tri ?n c" if "c < ?n" for c
    proof (cases "c = 0")
      case True
      have "?tris f \<noteq> []" using lt that by auto
      then have "last (?tris f) = ?tris f ! (2 * ?n - 1)"
        by (simp add: last_conv_nth lt)
      then show ?thesis using True that by (simp add: prev_tri_eq(1))
    next
      case False
      then show ?thesis using that by (simp add: prev_tri_eq(2))
    qed
    have div3: "3 * ?n div 3 = ?n" by simp
    have G: "?G r f = foldl (\<lambda>r c. foldl (\<lambda>r d. r[3 * ?node f c + d
                 := r ! (3 * ?node f c + d)
                    + (?V f (2 * c) + ?V f (prev_tri ?n c)) * bforce ! d]) r [0..<3])
          r [0..<?n]"
      unfolding Let_def length_pick_points div3
      by (rule foldl_upt_cong) (simp only: t2 tri_volume_def)
    have r: "3 * ?node f c + 3 \<le> length r" if "c < ?n" for c
      using rng [OF f that] len by simp
    show ?thesis
      unfolding G
      using scatter_nested(1) [where Dim = 3 and m = ?n and node = "?node f" and r = r
          and d = d and v = "\<lambda>c d. (?V f (2 * c) + ?V f (prev_tri ?n c)) * bforce ! d", OF r d]
        scatter_nested(2) [where Dim = 3 and m = ?n and node = "?node f" and r = r
          and d = d and a = a
          and v = "\<lambda>c d. (?V f (2 * c) + ?V f (prev_tri ?n c)) * bforce ! d", OF r d] len
      by simp
  qed
  from foldl_add_nth [of num_faces b_global ?G "3 * a + d", OF face]
  show ?thesis unfolding def by simp
qed


lemma pred_corner_next:
  fixes c n :: nat
  assumes "c < n"
  shows "((c + n - 1) mod n + 1) mod n = c"
proof (cases "c = 0")
  case True
  then have "(c + n - 1) mod n = n - 1" using assms by simp
  then show ?thesis using True assms by simp
next
  case False
  then have "c + n - 1 = (c - 1) + n" by simp
  moreover have "((c - 1) + n) mod n = (c - 1) mod n" by (rule mod_add_self2)
  moreover have "(c - 1) mod n = c - 1" using assms by (intro mod_less) arith
  ultimately have "(c + n - 1) mod n = c - 1" by (simp only:)
  then show ?thesis using False assms by simp
qed

lemma nth_tessellate_face_prev:
  assumes c: "c < n"
  shows "tessellate_face Dim corners n False ! prev_tri n c
      = face_centroid Dim corners n
        @ pointmean Dim (drop (Dim * ((c + n - 1) mod n)) corners) (drop (Dim * c) corners)
        @ take Dim (drop (Dim * c) corners)"
proof -
  let ?p = "(c + n - 1) mod n"
  have p: "?p < n" using c by simp
  have nx: "(?p + 1) mod n = c" by (rule pred_corner_next [OF c])
  have "prev_tri n c = 2 * ?p + 1"
    using prev_tri_next [OF p] unfolding nx .
  then show ?thesis
    using nth_tessellate_face(2) [OF p, of Dim corners] unfolding nx by (simp only:)
qed

lemma face_integral_corners:
  assumes "0 < n" "Dim = 2 \<or> Dim = 3"
  shows "face_integral corners n Dim (Some cv)
      = (\<Sum>c<n. (tri_area Dim (tessellate_face Dim corners n False) (2 * c)
                 + tri_area Dim (tessellate_face Dim corners n False) (prev_tri n c)) * cv ! c)"
  using assms(2) face_integral_impl_corners [OF assms(1), of 2 corners cv]
    face_integral_impl_corners [OF assms(1), of 3 corners cv]
  by (auto simp add: face_integral_def)

lemma trapezoid_tri_areas:
  "tri_area 2 (tessellate_face 2 [0, 0, 2, 0, 1, 1, 0, 1] 4 False) 0 = 2 / 9"
  "tri_area 2 (tessellate_face 2 [0, 0, 2, 0, 1, 1, 0, 1] 4 False) 1 = 2 / 9"
  "tri_area 2 (tessellate_face 2 [0, 0, 2, 0, 1, 1, 0, 1] 4 False) 7 = 7 / 36"
  using tri_areas_2D [of 0 4 "[0, 0, 2, 0, 1, 1, 0, 1]"]
    tri_areas_2D(2) [of 3 4 "[0, 0, 2, 0, 1, 1, 0, 1]"]
  by (simp_all add: tri_area_def trapezoid_centroid cross2_def corner2_def)

lemma trapezoid_prev: "prev_tri 4 0 = 7"
  by (simp add: prev_tri_def)

subsection \<open>The claims\<close>

text \<open>
  C1: for a cell in 2D or 3D (\<open>dimen\<close> is 2 or 3, and \<open>D\<close> is the 3 x 3 or 6 x 6 elasticity
  matrix), \<open>final_assembly\<close> returns a matrix of \<open>dimen * num_nodes\<close> rows and columns whose
  entry \<open>(i, j)\<close> is the entry of \<open>Volume * Wc * D * Wc\<^sup>t\<close> plus the entry of
  \<open>(I - P)\<^sup>t * S * (I - P)\<close>, where \<open>S\<close> is the stability matrix that the function selects
  by the stability choice.
\<close>

theorem C1_final_assembly:
  assumes "dimen = 2 \<or> dimen = 3" "length D = lsdim_of dimen * lsdim_of dimen"
  shows "\<exists>T S. final_assembly Wc D Nc ImP stability_choice volume num_nodes dimen = Inr T
    \<and> final_assembly_S Wc D Nc stability_choice volume num_nodes dimen = Inr S
    \<and> length T = (dimen * num_nodes) * (dimen * num_nodes)
    \<and> (\<forall>i < dimen * num_nodes. \<forall>j < dimen * num_nodes.
          mat T (dimen * num_nodes) i j
            = consistent_part Wc D volume (lsdim_of dimen) i j
              + stability_part ImP S (dimen * num_nodes) i j)"
  using assms by (rule final_assembly_props)

text \<open>C1, witness: a cell in 2D with one node.\<close>

theorem C1_final_assembly_witness:
  "\<exists>T S. final_assembly [1, 0, 2, 0, 1, 3] [1, 0, 0, 0, 1, 0, 0, 0, 1] [1, 0, 1, 0, 1, 1]
            [1, 0, 0, 1] SIMPLE 2 1 2 = Inr T
     \<and> final_assembly_S [1, 0, 2, 0, 1, 3] [1, 0, 0, 0, 1, 0, 0, 0, 1] [1, 0, 1, 0, 1, 1]
            SIMPLE 2 1 2 = Inr S
     \<and> length T = 4
     \<and> mat T 2 0 1 = consistent_part [1, 0, 2, 0, 1, 3] [1, 0, 0, 0, 1, 0, 0, 0, 1] 2 3 0 1
                      + stability_part [1, 0, 0, 1] S 2 0 1"
proof -
  have h1: "(2::nat) = 2 \<or> (2::nat) = 3" by simp
  have h2: "length [1, 0, 0, 0, 1, 0, 0, 0, 1 :: real] = lsdim_of 2 * lsdim_of 2"
    by (simp add: lsdim_of_def)
  from C1_final_assembly [OF h1 h2, of "[1, 0, 2, 0, 1, 3]" "[1, 0, 1, 0, 1, 1]" "[1, 0, 0, 1]"
      SIMPLE 2 1]
  obtain T S where
    "final_assembly [1, 0, 2, 0, 1, 3] [1, 0, 0, 0, 1, 0, 0, 0, 1] [1, 0, 1, 0, 1, 1]
            [1, 0, 0, 1] SIMPLE 2 1 2 = Inr T"
    "final_assembly_S [1, 0, 2, 0, 1, 3] [1, 0, 0, 0, 1, 0, 0, 0, 1] [1, 0, 1, 0, 1, 1]
            SIMPLE 2 1 2 = Inr S"
    "length T = 2 * 1 * (2 * 1)"
    "\<forall>i < 2 * 1. \<forall>j < 2 * 1. mat T (2 * 1) i j
        = consistent_part [1, 0, 2, 0, 1, 3] [1, 0, 0, 0, 1, 0, 0, 0, 1] 2 (lsdim_of 2) i j
          + stability_part [1, 0, 0, 1] S (2 * 1) i j"
    by blast
  then show ?thesis by (intro exI [of _ T] exI [of _ S]) (simp add: lsdim_of_def)
qed

text \<open>
  C10: when \<open>assemble_mech_system_2D\<close> (resp. \<open>assemble_mech_system_3D\<close>) returns, the
  integer it returns is the length of the final right-hand side. With \<open>num_points\<close> one
  plus the largest corner index of the connectivity array and \<open>Dim\<close> 2 (resp. 3), this
  length is \<open>Dim * num_points - num_fixed_dofs\<close> when \<open>reduce_boundary\<close> is true and the
  fixed degrees of freedom are distinct and in range, and \<open>Dim * num_points\<close> when
  \<open>reduce_boundary\<close> is false. The function in 2D returns whenever the fixed degrees of
  freedom are ascending; the one in 3D can also fail in the geometry of a cell.
\<close>

theorem C10_return_value:
  "(\<forall>ret A b.
      assemble_mech_system_2D points num_cells num_cell_faces cell_corners young poisson
        body_force num_fixed_dofs fixed_dof_ixs fixed_dof_values num_neumann_faces neumann_faces
        neumann_forces stability_choice reduce_boundary = Inr (ret, A, b)
      \<and> (reduce_boundary \<longrightarrow> distinct (take num_fixed_dofs fixed_dof_ixs)
           \<and> num_fixed_dofs \<le> length fixed_dof_ixs
           \<and> (\<forall>d \<in> set (take num_fixed_dofs fixed_dof_ixs). 0 \<le> d
                 \<and> d < int (2 * (Max (set (take (sum_list (take num_cells num_cell_faces))
                                          cell_corners)) + 1))))
      \<longrightarrow> ret = length b
        \<and> length b = (if reduce_boundary
            then 2 * (Max (set (take (sum_list (take num_cells num_cell_faces)) cell_corners)) + 1)
                 - num_fixed_dofs
            else 2 * (Max (set (take (sum_list (take num_cells num_cell_faces)) cell_corners))
                      + 1)))
   \<and> (sorted (take num_fixed_dofs fixed_dof_ixs) \<longrightarrow>
        (\<exists>r. assemble_mech_system_2D points num_cells num_cell_faces cell_corners young poisson
          body_force num_fixed_dofs fixed_dof_ixs fixed_dof_values num_neumann_faces
          neumann_faces neumann_forces stability_choice reduce_boundary = Inr r))
   \<and> (\<forall>ret A b.
      assemble_mech_system_3D points num_cells num_cell_faces num_face_corners face_corners
        young poisson body_force num_fixed_dofs fixed_dof_ixs fixed_dof_values num_neumann_faces
        neumann_faces neumann_forces stability_choice reduce_boundary = Inr (ret, A, b)
      \<and> (reduce_boundary \<longrightarrow> distinct (take num_fixed_dofs fixed_dof_ixs)
           \<and> num_fixed_dofs \<le> length fixed_dof_ixs
           \<and> (\<forall>d \<in> set (take num_fixed_dofs fixed_dof_ixs). 0 \<le> d
                 \<and> d < int (3 * (Max (set (take (sum_list (take (sum_list (take num_cells
                       num_cell_faces)) num_face_corners)) face_corners)) + 1))))
      \<longrightarrow> ret = length b
        \<and> length b = (if reduce_boundary
            then 3 * (Max (set (take (sum_list (take (sum_list (take num_cells num_cell_faces))
                        num_face_corners)) face_corners)) + 1) - num_fixed_dofs
            else 3 * (Max (set (take (sum_list (take (sum_list (take num_cells num_cell_faces))
                        num_face_corners)) face_corners)) + 1)))"
proof (intro conjI allI impI)
  fix ret A b
  assume h: "assemble_mech_system_2D points num_cells num_cell_faces cell_corners young poisson
        body_force num_fixed_dofs fixed_dof_ixs fixed_dof_values num_neumann_faces neumann_faces
        neumann_forces stability_choice reduce_boundary = Inr (ret, A, b)
      \<and> (reduce_boundary \<longrightarrow> distinct (take num_fixed_dofs fixed_dof_ixs)
           \<and> num_fixed_dofs \<le> length fixed_dof_ixs
           \<and> (\<forall>d \<in> set (take num_fixed_dofs fixed_dof_ixs). 0 \<le> d
                 \<and> d < int (2 * (Max (set (take (sum_list (take num_cells num_cell_faces))
                                          cell_corners)) + 1))))"
  from assemble_mech_system_2D_result [OF h [THEN conjunct1] h [THEN conjunct2]]
  show "ret = length b"
    and "length b = (if reduce_boundary
            then 2 * (Max (set (take (sum_list (take num_cells num_cell_faces)) cell_corners)) + 1)
                 - num_fixed_dofs
            else 2 * (Max (set (take (sum_list (take num_cells num_cell_faces)) cell_corners))
                      + 1))"
    by simp_all
next
  assume "sorted (take num_fixed_dofs fixed_dof_ixs)"
  then show "\<exists>r. assemble_mech_system_2D points num_cells num_cell_faces cell_corners young poisson
          body_force num_fixed_dofs fixed_dof_ixs fixed_dof_values num_neumann_faces
          neumann_faces neumann_forces stability_choice reduce_boundary = Inr r"
    by (rule assemble_mech_system_2D_returns)
next
  fix ret A b
  assume h: "assemble_mech_system_3D points num_cells num_cell_faces num_face_corners face_corners
        young poisson body_force num_fixed_dofs fixed_dof_ixs fixed_dof_values num_neumann_faces
        neumann_faces neumann_forces stability_choice reduce_boundary = Inr (ret, A, b)
      \<and> (reduce_boundary \<longrightarrow> distinct (take num_fixed_dofs fixed_dof_ixs)
           \<and> num_fixed_dofs \<le> length fixed_dof_ixs
           \<and> (\<forall>d \<in> set (take num_fixed_dofs fixed_dof_ixs). 0 \<le> d
                 \<and> d < int (3 * (Max (set (take (sum_list (take (sum_list (take num_cells
                       num_cell_faces)) num_face_corners)) face_corners)) + 1))))"
  from assemble_mech_system_3D_result [OF h [THEN conjunct1] h [THEN conjunct2]]
  show "ret = length b"
    and "length b = (if reduce_boundary
            then 3 * (Max (set (take (sum_list (take (sum_list (take num_cells num_cell_faces))
                        num_face_corners)) face_corners)) + 1) - num_fixed_dofs
            else 3 * (Max (set (take (sum_list (take (sum_list (take num_cells num_cell_faces))
                        num_face_corners)) face_corners)) + 1))"
    by simp_all
qed

text \<open>
  C10, witness: one triangular cell in 2D, and in 3D the smallest connectivity (one cell
  with a single triangular face), for which the geometry of the cell cannot fail; two fixed
  degrees of freedom are removed from 6 and from 9.
\<close>

theorem C10_return_value_witness:
  "(\<exists>A b. assemble_mech_system_2D [0, 0, 1, 0, 0, 1] 1 [3] [0, 1, 2] [1] [3 / 10] [0, 0]
             2 [0, 1] [0, 0] 0 [] [] SIMPLE True = Inr (4, A, b) \<and> length b = 4)
   \<and> (\<exists>A b. assemble_mech_system_3D [0, 0, 0, 1, 0, 0, 0, 1, 0] 1 [1] [3] [0, 1, 2] [1] [3 / 10]
             [0, 0, 0] 2 [0, 1] [0, 0] 0 [] [] SIMPLE True = Inr (7, A, b) \<and> length b = 7)"
proof -
  note inst2 = C10_return_value [of "[0, 0, 1, 0, 0, 1]" 1 "[3]" "[0, 1, 2]" "[1]" "[3 / 10]"
      "[0, 0]" 2 "[0, 1]" "[0, 0]" 0 "[]" "[]" SIMPLE True]
  have s: "sorted (take 2 [0, 1 :: int])" by simp
  from inst2 s obtain r2 where r2: "assemble_mech_system_2D [0, 0, 1, 0, 0, 1] 1 [3] [0, 1, 2] [1]
      [3 / 10] [0, 0] 2 [0, 1] [0, 0] 0 [] [] SIMPLE True = Inr r2" by blast
  obtain ret A b where r2': "r2 = (ret, A, b)" by (cases r2)
  have h2: "distinct (take 2 [0, 1 :: int]) \<and> (2::nat) \<le> length [0, 1 :: int]
      \<and> (\<forall>d \<in> set (take 2 [0, 1 :: int]). 0 \<le> d
            \<and> d < int (2 * (Max (set (take (sum_list (take 1 [3])) [0, 1, 2 :: nat])) + 1)))"
    by simp
  from inst2 r2 r2' h2 have "ret = length b \<and> length b = 4" by simp
  then have part2: "\<exists>A b. assemble_mech_system_2D [0, 0, 1, 0, 0, 1] 1 [3] [0, 1, 2] [1] [3 / 10]
      [0, 0] 2 [0, 1] [0, 0] 0 [] [] SIMPLE True = Inr (4, A, b) \<and> length b = 4"
    using r2 r2' by auto
  note inst3 = C10_return_value [of "[0, 0, 0, 1, 0, 0, 0, 1, 0]" 1 "[1]" _ "[1]" "[3 / 10]"
      "[0, 0, 0]" 2 "[0, 1]" "[0, 0]" 0 "[]" "[]" SIMPLE True "[3]" "[0, 1, 2]"]
  from assemble_mech_system_3D_one_face_returns [OF s]
  obtain r3 where r3: "assemble_mech_system_3D [0, 0, 0, 1, 0, 0, 0, 1, 0] 1 [1] [3] [0, 1, 2] [1]
      [3 / 10] [0, 0, 0] 2 [0, 1] [0, 0] 0 [] [] SIMPLE True = Inr r3" by blast
  obtain ret3 A3 b3 where r3': "r3 = (ret3, A3, b3)" by (cases r3)
  have h3: "distinct (take 2 [0, 1 :: int]) \<and> (2::nat) \<le> length [0, 1 :: int]
      \<and> (\<forall>d \<in> set (take 2 [0, 1 :: int]). 0 \<le> d
            \<and> d < int (3 * (Max (set (take (sum_list (take (sum_list (take 1 [1])) [3]))
                  [0, 1, 2 :: nat])) + 1)))"
    by simp
  from inst3 r3 r3' h3 have "ret3 = length b3 \<and> length b3 = 7" by simp
  then have part3: "\<exists>A b. assemble_mech_system_3D [0, 0, 0, 1, 0, 0, 0, 1, 0] 1 [1] [3] [0, 1, 2]
      [1] [3 / 10] [0, 0, 0] 2 [0, 1] [0, 0] 0 [] [] SIMPLE True = Inr (7, A, b) \<and> length b = 7"
    using r3 r3' by auto
  show ?thesis using part2 part3 by blast
qed

text \<open>
  C2 (the code departs from the claim): two cells share the degree of freedom 0, so the
  triplet list holds the coordinate (0, 0) twice. \<open>set_boundary_conditions\<close> sets each of
  the two stored triplets to 1, and the summed value of the matrix at (0, 0) is 2, not 1:
  the equation of the fixed degree of freedom reads \<open>2 * u = 5\<close>.
\<close>

theorem C2_shared_dof_diagonal:
  "set_boundary_conditions [(0, 0, 2), (0, 1, 1), (1, 0, 1), (1, 1, 2), (0, 0, 3)] [0, 0] 1 [0] [5]
     = (None, [(0, 0, 1), (1, 0, 0), (0, 0, 1), (0, 1, 0), (1, 1, 2)], [5, - 5])
   \<and> coo_value [(0, 0, 1), (1, 0, 0), (0, 0, 1), (0, 1, 0), (1, 1, 2)] 0 0 = 2
   \<and> sparse2full [(0, 0, 1), (1, 0, 0), (0, 0, 1), (0, 1, 0), (1, 1, 2)] 2 2 = [2, 0, 0, 2]"
  by code_simp

text \<open>
  C3: the stability matrix of \<open>final_assembly\<close> is diagonal, and its diagonal entry \<open>i\<close> is
  \<open>stability_diag\<close>: for \<open>SIMPLE\<close>, \<open>Volume * trace(D) / trace(Nc\<^sup>t Nc)\<close>; for \<open>HARMONIC\<close>,
  \<open>(1/9) * Volume * trace(D)\<close> times the sum of the reciprocals of the diagonal entries of
  \<open>Nc\<^sup>t Nc\<close>; for \<open>D_RECIPE\<close>, the larger of the cube root of the volume and the diagonal
  entry \<open>i\<close> of \<open>Volume * Wc * D * Wc\<^sup>t\<close>. The choice is one value of the enumeration, so
  exactly one formula applies in a call.
\<close>

theorem C3_stability_matrix:
  assumes "dimen = 2 \<or> dimen = 3" "length D = lsdim_of dimen * lsdim_of dimen"
  shows "\<exists>S. final_assembly_S Wc D Nc stability_choice volume num_nodes dimen = Inr S
    \<and> length S = (dimen * num_nodes) * (dimen * num_nodes)
    \<and> (\<forall>i < dimen * num_nodes. \<forall>j < dimen * num_nodes.
          mat S (dimen * num_nodes) i j
            = (if i = j
               then stability_diag stability_choice Wc D Nc volume (dimen * num_nodes)
                      (lsdim_of dimen) i
               else 0))"
  using assms by (rule final_assembly_S_props)

text \<open>C3, witness: a cell in 2D with one node and the choice \<open>D_RECIPE\<close>.\<close>

theorem C3_stability_matrix_witness:
  "\<exists>S. final_assembly_S [1, 0, 2, 0, 1, 3] [1, 0, 0, 0, 1, 0, 0, 0, 1] [1, 0, 1, 0, 1, 1]
          D_RECIPE 8 1 2 = Inr S
     \<and> length S = 4
     \<and> mat S 2 0 0 = stability_diag D_RECIPE [1, 0, 2, 0, 1, 3] [1, 0, 0, 0, 1, 0, 0, 0, 1]
                        [1, 0, 1, 0, 1, 1] 8 2 3 0
     \<and> mat S 2 0 1 = 0"
proof -
  have h1: "(2::nat) = 2 \<or> (2::nat) = 3" by simp
  have h2: "length [1, 0, 0, 0, 1, 0, 0, 0, 1 :: real] = lsdim_of 2 * lsdim_of 2"
    by (simp add: lsdim_of_def)
  from C3_stability_matrix [OF h1 h2, of "[1, 0, 2, 0, 1, 3]" "[1, 0, 1, 0, 1, 1]" D_RECIPE 8 1]
  obtain S where
    "final_assembly_S [1, 0, 2, 0, 1, 3] [1, 0, 0, 0, 1, 0, 0, 0, 1] [1, 0, 1, 0, 1, 1]
            D_RECIPE 8 1 2 = Inr S"
    "length S = 2 * 1 * (2 * 1)"
    "\<forall>i < 2 * 1. \<forall>j < 2 * 1. mat S (2 * 1) i j
        = (if i = j then stability_diag D_RECIPE [1, 0, 2, 0, 1, 3] [1, 0, 0, 0, 1, 0, 0, 0, 1]
                        [1, 0, 1, 0, 1, 1] 8 (2 * 1) (lsdim_of 2) i else 0)"
    by blast
  then show ?thesis by (intro exI [of _ S]) (simp add: lsdim_of_def)
qed

text \<open>
  C6 (as stated, refuted): the claim has the check require a negative orientation sum.
  For two faces whose normals point towards the mean of the face centroids the sum is
  negative and \<open>inward_pointing_normals\<close> holds, so this is the case that is aborted; for
  two faces whose normals point away from the mean the sum is positive and the check
  passes.
\<close>

theorem C6_orientation_counterexample:
  "orientation_sum [1, 0, 0, - 1, 0, 0] [- 1, 0, 0, 1, 0, 0] < 0
   \<and> inward_pointing_normals [1, 0, 0, - 1, 0, 0] [- 1, 0, 0, 1, 0, 0]
   \<and> \<not> orientation_sum [1, 0, 0, - 1, 0, 0] [1, 0, 0, - 1, 0, 0] < 0
   \<and> \<not> inward_pointing_normals [1, 0, 0, - 1, 0, 0] [1, 0, 0, - 1, 0, 0]"
  by (simp add: inward_pointing_normals_iff orientation_sum_two_faces)

text \<open>
  C6 (amended): the orientation check of \<open>compute_cell_geometry\<close> computes the average of
  the face centroids, the vectors from this average to each face centroid and the sum of
  their dot products with the face normals; the cell is rejected with a failed assertion
  exactly when this sum is negative, so a cell that passes has a sum that is zero or
  positive. A cell that is not rejected keeps its normals as computed: they are never
  flipped.
\<close>

theorem C6_orientation_check:
  "(compute_cell_geometry points num_points faces num_face_edges num_faces
      = Inl assertion_failure)
     = (orientation_sum (fst (cell_face_geometry points faces num_face_edges num_faces))
          (snd (cell_face_geometry points faces num_face_edges num_faces)) < 0)
   \<and> (isl (compute_cell_geometry points num_points faces num_face_edges num_faces)
      \<or> fst (projr (compute_cell_geometry points num_points faces num_face_edges num_faces))
          = fst (cell_face_geometry points faces num_face_edges num_faces))"
proof -
  obtain ns cs where g: "cell_face_geometry points faces num_face_edges num_faces = (ns, cs)"
    by (cases "cell_face_geometry points faces num_face_edges num_faces")
  have "length ns \<le> length cs"
    using length_cell_face_geometry [of points faces num_face_edges num_faces] g by simp
  then have iff: "inward_pointing_normals ns cs = (orientation_sum ns cs < 0)"
    by (rule inward_pointing_normals_iff)
  show ?thesis
  proof (cases "inward_pointing_normals ns cs")
    case True
    then show ?thesis using iff g by (simp add: compute_cell_geometry_def)
  next
    case False
    show ?thesis
    proof (cases "identify_star_point (point_average 3 points num_points) ns cs")
      case (Inl e)
      then have "e = runtime_error" by (rule identify_star_point_error)
      then show ?thesis using False iff g Inl by (simp add: compute_cell_geometry_def)
    next
      case (Inr sp)
      then show ?thesis using False iff g
        by (simp add: compute_cell_geometry_def Let_def split: prod.splits)
    qed
  qed
qed




text \<open>
  C8 (as stated, refuted): the claim reads \<open>is_behind_face\<close> as
  "((point - face_centroid) . normal) + 1e-13 is negative". At a point lying on the face
  plane (here the face centroid itself) that expression is \<open>1e-13\<close>, not negative, and yet
  the code classifies the point as behind the face.
\<close>

theorem C8_is_behind_face_counterexample:
  "is_behind_face [0, 0, 0] [1, 0, 0] [0, 0, 0]
   \<and> \<not> (dot3 (sub3 [0, 0, 0] [0, 0, 0]) [1, 0, 0] + tol < 0)"
  by (simp add: is_behind_face_def dot3_def sub3_def tol_def)

text \<open>
  C8 (amended): a point is behind a face exactly when the vector from the point to the face
  centroid has a dot product with the normal that exceeds \<open>-1e-13\<close>; equivalently, when
  \<open>(point - face_centroid) . normal\<close> is smaller than the tolerance \<open>1e-13\<close>. So the point
  is not behind the face exactly when \<open>(point - face_centroid) . normal - 1e-13\<close> is
  non-negative.
\<close>

theorem C8_is_behind_face_iff:
  "is_behind_face point fnormal fcentroid
     = (dot3 (sub3 fcentroid point) fnormal + tol > 0)
   \<and> is_behind_face point fnormal fcentroid
     = (dot3 (sub3 point fcentroid) fnormal < tol)
   \<and> (\<not> is_behind_face point fnormal fcentroid)
     = (dot3 (sub3 point fcentroid) fnormal - tol \<ge> 0)"
  by (auto simp add: is_behind_face_def dot3_def sub3_def Let_def algebra_simps)

text \<open>
  C9: both boundary-condition strategies test the order of the fixed degrees of freedom
  first. When the indices are not ascending they throw \<open>invalid_argument\<close> and leave \<open>A\<close>
  and \<open>b\<close> as they were; when the indices are ascending they throw nothing.
\<close>

theorem C9_sorted_check:
  "(\<not> sorted (take num_fixed_dofs fixed_dof_ixs) \<longrightarrow>
       reduce_system A b num_fixed_dofs fixed_dof_ixs fixed_dof_values
         = (Some invalid_argument, A, b)
     \<and> set_boundary_conditions A b num_fixed_dofs fixed_dof_ixs fixed_dof_values
         = (Some invalid_argument, A, b))
   \<and> (sorted (take num_fixed_dofs fixed_dof_ixs) \<longrightarrow>
       fst (reduce_system A b num_fixed_dofs fixed_dof_ixs fixed_dof_values) = None
     \<and> fst (set_boundary_conditions A b num_fixed_dofs fixed_dof_ixs fixed_dof_values) = None)"
  by (simp add: reduce_system_def set_boundary_conditions_def Let_def split: prod.splits)

text \<open>C9, witness: the indices 1, 0 are rejected, the indices 0, 1 are accepted.\<close>

theorem C9_sorted_check_witness:
  "\<not> sorted (take 2 [1, 0 :: int])
   \<and> reduce_system [(0, 0, 2), (1, 1, 3)] [4, 6] 2 [1, 0] [5, 7]
       = (Some invalid_argument, [(0, 0, 2), (1, 1, 3)], [4, 6])
   \<and> set_boundary_conditions [(0, 0, 2), (1, 1, 3)] [4, 6] 2 [1, 0] [5, 7]
       = (Some invalid_argument, [(0, 0, 2), (1, 1, 3)], [4, 6])
   \<and> sorted (take 2 [0, 1 :: int])
   \<and> fst (reduce_system [(0, 0, 2), (1, 1, 3)] [4, 6] 2 [0, 1] [5, 7]) = None
   \<and> fst (set_boundary_conditions [(0, 0, 2), (1, 1, 3)] [4, 6] 2 [0, 1] [5, 7]) = None"
  using C9_sorted_check [of 2 "[1, 0]" "[(0, 0, 2), (1, 1, 3)]" "[4, 6]" "[5, 7]"]
    C9_sorted_check [of 2 "[0, 1]" "[(0, 0, 2), (1, 1, 3)]" "[4, 6]" "[5, 7]"]
  by simp

text \<open>
  C4 (counterexample): the dart with the corners (0, 0), (2, 3), (4, 0), (2, 4) is a simple
  polygon, listed counterclockwise, of area 2. It is not star-shaped with respect to its
  centroid (2, 7/3), so the unsigned areas of the triangles around the centroid add up to
  14/3, which \<open>compute_q_2D\<close> takes for the area. The matrix \<open>I - P\<close> that \<open>compute_ImP\<close>
  returns is not idempotent: its entry (0, 0) is 15/28, that of its square is 81/196.
\<close>

theorem C4_dart_counterexample:
  "shoelace2 [0, 0, 2, 3, 4, 0, 2, 4] 4 / 2 = 2
   \<and> element_volume_2D [0, 0, 2, 3, 4, 0, 2, 4] 4 = 14 / 3
   \<and> compute_Wr_2D (compute_q_2D [0, 0, 2, 3, 4, 0, 2, 4] 4)
       = Inr [1 / 4, 0, 0, 0, 1 / 4, 3 / 56, 1 / 4, 0, - 3 / 14, 0, 1 / 4, 0, 1 / 4, 0,
            0, 0, 1 / 4, - 3 / 56, 1 / 4, 0, 3 / 14, 0, 1 / 4, 0]
   \<and> compute_Wc_2D (compute_q_2D [0, 0, 2, 3, 4, 0, 2, 4] 4)
       = Inr [- 3 / 28, 0, 0, 0, 0, - 3 / 56, 0, 0, - 3 / 14, 0, - 3 / 7, 0, 3 / 28, 0,
            0, 0, 0, 3 / 56, 0, 0, 3 / 14, 0, 3 / 7, 0]
   \<and> compute_ImP (compute_Nr_2D [0, 0, 2, 3, 4, 0, 2, 4] 4) (compute_Nc_2D [0, 0, 2, 3, 4, 0, 2, 4] 4)
         [1 / 4, 0, 0, 0, 1 / 4, 3 / 56, 1 / 4, 0, - 3 / 14, 0, 1 / 4, 0, 1 / 4, 0, 0,
          0, 1 / 4, - 3 / 56, 1 / 4, 0, 3 / 14, 0, 1 / 4, 0]
         [- 3 / 28, 0, 0, 0, 0, - 3 / 56, 0, 0, - 3 / 14, 0, - 3 / 7, 0, 3 / 28, 0, 0,
          0, 0, 3 / 56, 0, 0, 3 / 14, 0, 3 / 7, 0] 2
       = Inr [15 / 28, 0, - 1, 0, - 1 / 28, 0, 1 / 2, 0, 0, 15 / 28, 0, - 1, 0, - 1 / 28,
            0, 1 / 2, - 1 / 4, 0, 9 / 7, 0, - 1 / 4, 0, - 11 / 14, 0, 0, - 1 / 4, 0,
            9 / 7, 0, - 1 / 4, 0, - 11 / 14, - 1 / 28, 0, - 1, 0, 15 / 28, 0, 1 / 2, 0,
            0, - 1 / 28, 0, - 1, 0, 15 / 28, 0, 1 / 2, - 1 / 4, 0, 5 / 7, 0, - 1 / 4,
            0, - 3 / 14, 0, 0, - 1 / 4, 0, 5 / 7, 0, - 1 / 4, 0, - 3 / 14]
   \<and> matmul
         [15 / 28, 0, - 1, 0, - 1 / 28, 0, 1 / 2, 0, 0, 15 / 28, 0, - 1, 0, - 1 / 28,
          0, 1 / 2, - 1 / 4, 0, 9 / 7, 0, - 1 / 4, 0, - 11 / 14, 0, 0, - 1 / 4, 0,
          9 / 7, 0, - 1 / 4, 0, - 11 / 14, - 1 / 28, 0, - 1, 0, 15 / 28, 0, 1 / 2, 0,
          0, - 1 / 28, 0, - 1, 0, 15 / 28, 0, 1 / 2, - 1 / 4, 0, 5 / 7, 0, - 1 / 4, 0,
          - 3 / 14, 0, 0, - 1 / 4, 0, 5 / 7, 0, - 1 / 4, 0, - 3 / 14] 8 8 False
         [15 / 28, 0, - 1, 0, - 1 / 28, 0, 1 / 2, 0, 0, 15 / 28, 0, - 1, 0, - 1 / 28,
          0, 1 / 2, - 1 / 4, 0, 9 / 7, 0, - 1 / 4, 0, - 11 / 14, 0, 0, - 1 / 4, 0,
          9 / 7, 0, - 1 / 4, 0, - 11 / 14, - 1 / 28, 0, - 1, 0, 15 / 28, 0, 1 / 2, 0,
          0, - 1 / 28, 0, - 1, 0, 15 / 28, 0, 1 / 2, - 1 / 4, 0, 5 / 7, 0, - 1 / 4, 0,
          - 3 / 14, 0, 0, - 1 / 4, 0, 5 / 7, 0, - 1 / 4, 0, - 3 / 14] 8 8 False 1
       \<noteq> Inr [15 / 28, 0, - 1, 0, - 1 / 28, 0, 1 / 2, 0, 0, 15 / 28, 0, - 1, 0, - 1 / 28,
            0, 1 / 2, - 1 / 4, 0, 9 / 7, 0, - 1 / 4, 0, - 11 / 14, 0, 0, - 1 / 4, 0,
            9 / 7, 0, - 1 / 4, 0, - 11 / 14, - 1 / 28, 0, - 1, 0, 15 / 28, 0, 1 / 2, 0,
            0, - 1 / 28, 0, - 1, 0, 15 / 28, 0, 1 / 2, - 1 / 4, 0, 5 / 7, 0, - 1 / 4,
            0, - 3 / 14, 0, 0, - 1 / 4, 0, 5 / 7, 0, - 1 / 4, 0, - 3 / 14]"
  apply (intro conjI)
  subgoal by (simp add: shoelace2_def sum_lessThan_4)
  subgoal by (rule dart_area)
  subgoal unfolding dart_q by code_simp
  subgoal unfolding dart_q by code_simp
  subgoal by code_simp
  subgoal by code_simp
  done

text \<open>
  C4 (amended): for every cell in 2D with at least three corners, listed counterclockwise
  with positive area, that is star-shaped with respect to its centroid (each triangle
  (centroid, corner, next corner) is positively oriented or degenerate), the matrix \<open>I - P\<close>
  that \<open>compute_ImP\<close> returns for the matrices \<open>Nr\<close>, \<open>Nc\<close>, \<open>Wr\<close> and \<open>Wc\<close> of the cell is
  idempotent, \<open>(I - P) * (I - P) = I - P\<close>, exactly over the reals.
\<close>

theorem C4_ImP_idempotent:
  assumes "valid_cell_2D corners n"
  shows "\<exists>Wr Wc ImP. compute_Wr_2D (compute_q_2D corners n) = Inr Wr
         \<and> compute_Wc_2D (compute_q_2D corners n) = Inr Wc
         \<and> compute_ImP (compute_Nr_2D corners n) (compute_Nc_2D corners n) Wr Wc 2 = Inr ImP
         \<and> matmul ImP (2 * n) (2 * n) False ImP (2 * n) (2 * n) False 1 = Inr ImP"
proof -
  from assms have "0 < n" "2 * n \<le> length corners" by (simp_all add: valid_cell_2D_def)
  then show ?thesis
    by (rule ImP_idempotent_2D [OF _ _ length_compute_q_2D compute_q_2D_consistent [OF assms]])
qed

text \<open>C4, witness: the trapezoid with the corners (0, 0), (2, 0), (1, 1), (0, 1).\<close>

theorem C4_ImP_idempotent_witness:
  "valid_cell_2D [0, 0, 2, 0, 1, 1, 0, 1] 4
   \<and> (\<exists>Wr Wc ImP. compute_Wr_2D (compute_q_2D [0, 0, 2, 0, 1, 1, 0, 1] 4) = Inr Wr
         \<and> compute_Wc_2D (compute_q_2D [0, 0, 2, 0, 1, 1, 0, 1] 4) = Inr Wc
         \<and> compute_ImP (compute_Nr_2D [0, 0, 2, 0, 1, 1, 0, 1] 4)
              (compute_Nc_2D [0, 0, 2, 0, 1, 1, 0, 1] 4) Wr Wc 2 = Inr ImP
         \<and> matmul ImP 8 8 False ImP 8 8 False 1 = Inr ImP)"
  using C4_ImP_idempotent [OF trapezoid_valid] trapezoid_valid by simp

text \<open>
  C5 (counterexample): in the tessellation of the trapezoid with the corners (0, 0), (2, 0),
  (1, 1), (0, 1), the triangle at position 1 is (centroid, midpoint of the edge from corner 0
  to corner 1, corner 1): it does not touch corner 0. The triangles at the positions 0 and 1
  have the areas 2/9 and 2/9, the one at position 7 has the area 7/36. With the corner values
  1, 0, 0, 0 \<open>face_integral\<close> returns 5/12, the areas of the triangles 0 and 7, and not 4/9,
  the areas of the triangles 0 and 1; and \<open>compute_bodyforce_2D\<close> adds 5/12 times the body
  force to corner 0.
\<close>

theorem C5_corner_pair_counterexample:
  "tessellate_face 2 [0, 0, 2, 0, 1, 1, 0, 1] 4 False ! 1 = [7 / 9, 4 / 9, 1, 0, 2, 0]
   \<and> tri_area 2 (tessellate_face 2 [0, 0, 2, 0, 1, 1, 0, 1] 4 False) 0
       + tri_area 2 (tessellate_face 2 [0, 0, 2, 0, 1, 1, 0, 1] 4 False) 1 = 4 / 9
   \<and> face_integral [0, 0, 2, 0, 1, 1, 0, 1] 4 2 (Some [1, 0, 0, 0]) = 5 / 12
   \<and> compute_bodyforce_2D [0, 0, 2, 0, 1, 1, 0, 1] [0, 1, 2, 3] 4 [1, 0]
         [0, 0, 0, 0, 0, 0, 0, 0] ! 0 = 5 / 12"
  apply (intro conjI)
  subgoal
    using nth_tessellate_face(2) [of 0 4 2 "[0, 0, 2, 0, 1, 1, 0, 1]"]
    by (simp add: face_centroid_def trapezoid_centroid pointmean_def plc_def upt2)
  subgoal unfolding trapezoid_tri_areas by simp
  subgoal
    by (simp add: face_integral_corners sum_lessThan_4 trapezoid_tri_areas trapezoid_prev)
  subgoal
    using compute_bodyforce_2D_nth [of 0 4 0 "[0, 0, 0, 0, 0, 0, 0, 0]"
        "[0, 0, 2, 0, 1, 1, 0, 1]" "[0, 1, 2, 3]" "[1, 0]"]
    by (simp add: pick_points_def upt4 upt2 trapezoid_tri_areas trapezoid_prev)
  done

text \<open>
  C5 (amended): in the tessellation of a face with \<open>N\<close> corners, without the shortcut for
  triangles, the triangles at the positions \<open>2 * c\<close> and \<open>2 * c + 1\<close> are the two halves of the
  wedge over the edge from corner \<open>c\<close> to the next corner: (centroid, corner \<open>c\<close>, midpoint)
  and (centroid, midpoint, next corner). The two triangles that touch corner \<open>c\<close> are those at
  the positions \<open>2 * c\<close> and \<open>prev_tri N c\<close>, the latter being
  (centroid, midpoint of the edge from the previous corner, corner \<open>c\<close>), and the consumers
  attribute these two to corner \<open>c\<close>: \<open>face_integral\<close> weights their areas with the value of
  corner \<open>c\<close>, \<open>compute_bodyforce_2D\<close> adds the body force times their areas to the entries of
  corner \<open>c\<close>, and \<open>compute_bodyforce_3D\<close> adds the body force times the volumes of the
  tetrahedra they span with the cell centroid to the entries of the node of corner \<open>c\<close>,
  summed over all faces and corners at that node.
\<close>

theorem C5_corner_triangles:
  "(c < N \<longrightarrow>
      tessellate_face Dim corners N False ! (2 * c)
        = face_centroid Dim corners N @ take Dim (drop (Dim * c) corners)
          @ pointmean Dim (drop (Dim * c) corners) (drop (Dim * ((c + 1) mod N)) corners)
      \<and> tessellate_face Dim corners N False ! (2 * c + 1)
        = face_centroid Dim corners N
          @ pointmean Dim (drop (Dim * c) corners) (drop (Dim * ((c + 1) mod N)) corners)
          @ take Dim (drop (Dim * ((c + 1) mod N)) corners)
      \<and> tessellate_face Dim corners N False ! prev_tri N c
        = face_centroid Dim corners N
          @ pointmean Dim (drop (Dim * ((c + N - 1) mod N)) corners) (drop (Dim * c) corners)
          @ take Dim (drop (Dim * c) corners))
   \<and> (0 < N \<and> (Dim = 2 \<or> Dim = 3) \<longrightarrow>
      face_integral corners N Dim (Some cv)
        = (\<Sum>k<N. (tri_area Dim (tessellate_face Dim corners N False) (2 * k)
                    + tri_area Dim (tessellate_face Dim corners N False) (prev_tri N k))
                   * cv ! k))
   \<and> (a < n \<and> d < 2 \<and> 2 * n \<le> length target \<longrightarrow>
      compute_bodyforce_2D points cell_corners n bforce target ! (2 * a + d)
        = target ! (2 * a + d)
          + bforce ! d
            * (tri_area 2 (tessellate_face 2 (pick_points 2 points cell_corners n) n False) (2 * a)
               + tri_area 2 (tessellate_face 2 (pick_points 2 points cell_corners n) n False)
                   (prev_tri n a)))
   \<and> (e < 3
      \<and> (\<forall>f<num_faces. \<forall>k<num_face_corners ! f.
            3 * face_corners ! (face_offset num_face_corners f + k) + 3 \<le> length b_global) \<longrightarrow>
      compute_bodyforce_3D points3 face_corners num_face_corners num_faces centroid bforce3 b_global
          ! (3 * v + e)
        = b_global ! (3 * v + e)
          + (\<Sum>f<num_faces. \<Sum>k<num_face_corners ! f.
               if face_corners ! (face_offset num_face_corners f + k) = v
               then (tri_volume (tessellate_face 3
                        (pick_points 3 points3 (drop (face_offset num_face_corners f) face_corners)
                           (num_face_corners ! f)) (num_face_corners ! f) False) centroid (2 * k)
                     + tri_volume (tessellate_face 3
                        (pick_points 3 points3 (drop (face_offset num_face_corners f) face_corners)
                           (num_face_corners ! f)) (num_face_corners ! f) False) centroid
                        (prev_tri (num_face_corners ! f) k)) * bforce3 ! e
               else 0))"
proof -
  have p1: "c < N \<longrightarrow>
      tessellate_face Dim corners N False ! (2 * c)
        = face_centroid Dim corners N @ take Dim (drop (Dim * c) corners)
          @ pointmean Dim (drop (Dim * c) corners) (drop (Dim * ((c + 1) mod N)) corners)
      \<and> tessellate_face Dim corners N False ! (2 * c + 1)
        = face_centroid Dim corners N
          @ pointmean Dim (drop (Dim * c) corners) (drop (Dim * ((c + 1) mod N)) corners)
          @ take Dim (drop (Dim * ((c + 1) mod N)) corners)
      \<and> tessellate_face Dim corners N False ! prev_tri N c
        = face_centroid Dim corners N
          @ pointmean Dim (drop (Dim * ((c + N - 1) mod N)) corners) (drop (Dim * c) corners)
          @ take Dim (drop (Dim * c) corners)"
  proof
    assume c: "c < N"
    from nth_tessellate_face [OF c, of Dim corners] nth_tessellate_face_prev [OF c, of Dim corners]
    show "tessellate_face Dim corners N False ! (2 * c)
        = face_centroid Dim corners N @ take Dim (drop (Dim * c) corners)
          @ pointmean Dim (drop (Dim * c) corners) (drop (Dim * ((c + 1) mod N)) corners)
      \<and> tessellate_face Dim corners N False ! (2 * c + 1)
        = face_centroid Dim corners N
          @ pointmean Dim (drop (Dim * c) corners) (drop (Dim * ((c + 1) mod N)) corners)
          @ take Dim (drop (Dim * ((c + 1) mod N)) corners)
      \<and> tessellate_face Dim corners N False ! prev_tri N c
        = face_centroid Dim corners N
          @ pointmean Dim (drop (Dim * ((c + N - 1) mod N)) corners) (drop (Dim * c) corners)
          @ take Dim (drop (Dim * c) corners)"
      by (intro conjI)
  qed
  have p2: "0 < N \<and> (Dim = 2 \<or> Dim = 3) \<longrightarrow>
      face_integral corners N Dim (Some cv)
        = (\<Sum>k<N. (tri_area Dim (tessellate_face Dim corners N False) (2 * k)
                    + tri_area Dim (tessellate_face Dim corners N False) (prev_tri N k))
                   * cv ! k)"
    by (intro impI face_integral_corners) simp_all
  have p3: "a < n \<and> d < 2 \<and> 2 * n \<le> length target \<longrightarrow>
      compute_bodyforce_2D points cell_corners n bforce target ! (2 * a + d)
        = target ! (2 * a + d)
          + bforce ! d
            * (tri_area 2 (tessellate_face 2 (pick_points 2 points cell_corners n) n False) (2 * a)
               + tri_area 2 (tessellate_face 2 (pick_points 2 points cell_corners n) n False)
                   (prev_tri n a))"
    by (intro impI compute_bodyforce_2D_nth) simp_all
  have p4: "e < 3
      \<and> (\<forall>f<num_faces. \<forall>k<num_face_corners ! f.
            3 * face_corners ! (face_offset num_face_corners f + k) + 3 \<le> length b_global) \<longrightarrow>
      compute_bodyforce_3D points3 face_corners num_face_corners num_faces centroid bforce3 b_global
          ! (3 * v + e)
        = b_global ! (3 * v + e)
          + (\<Sum>f<num_faces. \<Sum>k<num_face_corners ! f.
               if face_corners ! (face_offset num_face_corners f + k) = v
               then (tri_volume (tessellate_face 3
                        (pick_points 3 points3 (drop (face_offset num_face_corners f) face_corners)
                           (num_face_corners ! f)) (num_face_corners ! f) False) centroid (2 * k)
                     + tri_volume (tessellate_face 3
                        (pick_points 3 points3 (drop (face_offset num_face_corners f) face_corners)
                           (num_face_corners ! f)) (num_face_corners ! f) False) centroid
                        (prev_tri (num_face_corners ! f) k)) * bforce3 ! e
               else 0)"
  proof
    assume h: "e < 3
      \<and> (\<forall>f<num_faces. \<forall>k<num_face_corners ! f.
            3 * face_corners ! (face_offset num_face_corners f + k) + 3 \<le> length b_global)"
    then have rng: "\<And>f k. f < num_faces \<Longrightarrow> k < num_face_corners ! f
        \<Longrightarrow> 3 * face_corners ! (face_offset num_face_corners f + k) + 3 \<le> length b_global"
      by simp
    from h have e: "e < 3" by simp
    show "compute_bodyforce_3D points3 face_corners num_face_corners num_faces centroid bforce3 b_global
          ! (3 * v + e)
        = b_global ! (3 * v + e)
          + (\<Sum>f<num_faces. \<Sum>k<num_face_corners ! f.
               if face_corners ! (face_offset num_face_corners f + k) = v
               then (tri_volume (tessellate_face 3
                        (pick_points 3 points3 (drop (face_offset num_face_corners f) face_corners)
                           (num_face_corners ! f)) (num_face_corners ! f) False) centroid (2 * k)
                     + tri_volume (tessellate_face 3
                        (pick_points 3 points3 (drop (face_offset num_face_corners f) face_corners)
                           (num_face_corners ! f)) (num_face_corners ! f) False) centroid
                        (prev_tri (num_face_corners ! f) k)) * bforce3 ! e
               else 0)"
      by (rule compute_bodyforce_3D_nth [OF e rng])
  qed
  show ?thesis
    by (rule conjI [OF p1 conjI [OF p2 conjI [OF p3 p4]]])
qed

text \<open>
  C5, witness: corner 0 of the trapezoid in 2D, and node 0 of a cell in 3D with one
  triangular face.
\<close>

theorem C5_corner_triangles_witness:
  "(((0::nat) < 4)
      \<and> (tessellate_face 2 [0, 0, 2, 0, 1, 1, 0, 1] 4 False ! (2 * 0)
        = face_centroid 2 [0, 0, 2, 0, 1, 1, 0, 1] 4 @ take 2 (drop (2 * 0) [0, 0, 2, 0, 1, 1, 0, 1])
          @ pointmean 2 (drop (2 * 0) [0, 0, 2, 0, 1, 1, 0, 1]) (drop (2 * ((0 + 1) mod 4)) [0, 0, 2, 0, 1, 1, 0, 1])
      \<and> tessellate_face 2 [0, 0, 2, 0, 1, 1, 0, 1] 4 False ! (2 * 0 + 1)
        = face_centroid 2 [0, 0, 2, 0, 1, 1, 0, 1] 4
          @ pointmean 2 (drop (2 * 0) [0, 0, 2, 0, 1, 1, 0, 1]) (drop (2 * ((0 + 1) mod 4)) [0, 0, 2, 0, 1, 1, 0, 1])
          @ take 2 (drop (2 * ((0 + 1) mod 4)) [0, 0, 2, 0, 1, 1, 0, 1])
      \<and> tessellate_face 2 [0, 0, 2, 0, 1, 1, 0, 1] 4 False ! prev_tri 4 0
        = face_centroid 2 [0, 0, 2, 0, 1, 1, 0, 1] 4
          @ pointmean 2 (drop (2 * ((0 + 4 - 1) mod 4)) [0, 0, 2, 0, 1, 1, 0, 1]) (drop (2 * 0) [0, 0, 2, 0, 1, 1, 0, 1])
          @ take 2 (drop (2 * 0) [0, 0, 2, 0, 1, 1, 0, 1])))
   \<and> ((0 < (4::nat) \<and> ((2::nat) = 2 \<or> (2::nat) = 3))
      \<and> (face_integral [0, 0, 2, 0, 1, 1, 0, 1] 4 2 (Some [1, 0, 0, 0])
        = (\<Sum>k<4. (tri_area 2 (tessellate_face 2 [0, 0, 2, 0, 1, 1, 0, 1] 4 False) (2 * k)
                    + tri_area 2 (tessellate_face 2 [0, 0, 2, 0, 1, 1, 0, 1] 4 False) (prev_tri 4 k))
                   * [1, 0, 0, 0] ! k)))
   \<and> (((0::nat) < 4 \<and> (0::nat) < 2 \<and> 2 * 4 \<le> length [0, 0, 0, 0, 0, 0, 0, 0 :: real])
      \<and> (compute_bodyforce_2D [0, 0, 2, 0, 1, 1, 0, 1] [0, 1, 2, 3] 4 [1, 0] [0, 0, 0, 0, 0, 0, 0, 0] ! (2 * 0 + 0)
        = [0, 0, 0, 0, 0, 0, 0, 0] ! (2 * 0 + 0)
          + [1, 0] ! 0
            * (tri_area 2 (tessellate_face 2 (pick_points 2 [0, 0, 2, 0, 1, 1, 0, 1] [0, 1, 2, 3] 4) 4 False) (2 * 0)
               + tri_area 2 (tessellate_face 2 (pick_points 2 [0, 0, 2, 0, 1, 1, 0, 1] [0, 1, 2, 3] 4) 4 False)
                   (prev_tri 4 0))))
   \<and> (((2::nat) < 3)
      \<and> (compute_bodyforce_3D [0, 0, 0, 3, 0, 0, 0, 3, 0] [0, 1, 2] [3] 1 [1, 1, 3] [0, 0, 1] [0, 0, 0, 0, 0, 0, 0, 0, 0]
          ! (3 * 0 + 2)
        = [0, 0, 0, 0, 0, 0, 0, 0, 0] ! (3 * 0 + 2)
          + (\<Sum>f<1. \<Sum>k<[3] ! f.
               if [0, 1, 2] ! (face_offset [3] f + k) = (0::nat)
               then (tri_volume (tessellate_face 3
                        (pick_points 3 [0, 0, 0, 3, 0, 0, 0, 3, 0] (drop (face_offset [3] f) [0, 1, 2])
                           ([3] ! f)) ([3] ! f) False) [1, 1, 3] (2 * k)
                     + tri_volume (tessellate_face 3
                        (pick_points 3 [0, 0, 0, 3, 0, 0, 0, 3, 0] (drop (face_offset [3] f) [0, 1, 2])
                           ([3] ! f)) ([3] ! f) False) [1, 1, 3]
                        (prev_tri ([3] ! f) k)) * [0, 0, 1] ! 2
               else 0)))"
proof -
  note t = C5_corner_triangles [of 0 4 2 "[0, 0, 2, 0, 1, 1, 0, 1]" "[1, 0, 0, 0]" 0 4 0
      "[0, 0, 0, 0, 0, 0, 0, 0]" "[0, 0, 2, 0, 1, 1, 0, 1]" "[0, 1, 2, 3]" "[1, 0]" 2 1 "[3]" "[0, 1, 2]"
      "[0, 0, 0, 0, 0, 0, 0, 0, 0]" "[0, 0, 0, 3, 0, 0, 0, 3, 0]" "[1, 1, 3]" "[0, 0, 1]" 0]
  have h1: "(0::nat) < 4" by simp
  have h2: "0 < (4::nat) \<and> ((2::nat) = 2 \<or> (2::nat) = 3)" by simp
  have h3: "(0::nat) < 4 \<and> (0::nat) < 2 \<and> 2 * 4 \<le> length [0, 0, 0, 0, 0, 0, 0, 0 :: real]" by simp
  have h4: "(2::nat) < 3
      \<and> (\<forall>f<1. \<forall>k<[3] ! f.
            3 * [0, 1, 2] ! (face_offset [3] f + k) + 3 \<le> length [0, 0, 0, 0, 0, 0, 0, 0, 0 :: real])"
    by (auto simp add: face_offset_def dest!: less3_cases)
  note c1 = t [THEN conjunct1, THEN mp, OF h1]
  note c2 = t [THEN conjunct2, THEN conjunct1, THEN mp, OF h2]
  note c3 = t [THEN conjunct2, THEN conjunct2, THEN conjunct1, THEN mp, OF h3]
  note c4 = t [THEN conjunct2, THEN conjunct2, THEN conjunct2, THEN mp, OF h4]
  show ?thesis
    by (rule conjI [OF conjI [OF h1 c1] conjI [OF conjI [OF h2 c2]
          conjI [OF conjI [OF h3 c3] conjI [OF h4 [THEN conjunct1] c4]]]])
qed

end
